theory Spec2Isabelle
  imports Complex_Main "HOL-Library.Word" "HOL-Library.Multiset"
begin

unbundle bit_operations_syntax

section \<open>Data model of D3D12ExplicitDescriptorCache.cpp\<close>

text \<open>
  Machine integers are 32-bit and 64-bit words: \<open>+\<close> wraps, \<open>\<le>\<close> and \<open><\<close> compare
  unsigned. A C++ \<open>int32\<close> is the same 32-bit pattern, read through \<open>sint\<close> where the
  source compares or returns it as a signed value; \<open>INDEX_NONE\<close> is the pattern of -1.
  A COM pointer is an identifier, \<open>nullptr\<close> is 0.

  The classes are declared in a header that is not under src/: the records below have the
  members that the source file reads and writes, with the types its expressions need.
  The member \<open>Type\<close> of \<open>FD3D12ExplicitDescriptorHeap\<close> is the field \<open>HeapType\<close> here, since
  \<open>FEntry\<close> has a member of the same name. The four heap types are those of the D3D12
  interface; the source tells the view type and the sampler type from the rest.
\<close>

type_synonym uint32 = "32 word"
type_synonym int32 = "32 word"
type_synonym uint64 = "64 word"
type_synonym ID3D12DescriptorHeap = nat
type_synonym D3D12_CPU_DESCRIPTOR_HANDLE = "64 word"

definition INDEX_NONE :: int32 where
  "INDEX_NONE = - 1"

definition nullptr :: ID3D12DescriptorHeap where
  "nullptr = 0"

datatype D3D12_DESCRIPTOR_HEAP_TYPE =
    D3D12_DESCRIPTOR_HEAP_TYPE_CBV_SRV_UAV
  | D3D12_DESCRIPTOR_HEAP_TYPE_SAMPLER
  | D3D12_DESCRIPTOR_HEAP_TYPE_RTV
  | D3D12_DESCRIPTOR_HEAP_TYPE_DSV

text \<open>
  Every way the source leaves a function other than by returning: \<open>UE_LOG(..., Fatal, ...)\<close>,
  \<open>VERIFYD3D12RESULT\<close> on a failed driver call, \<open>check\<close>/\<open>checkf\<close>, the range check of
  \<open>TArray::operator[]\<close>, and a read past the end of a caller's buffer.
\<close>

datatype error =
    FatalSamplerHeapOverflow
  | FatalCreateDescriptorHeapFailed
  | CheckFailed
  | RangeCheckFailed
  | BufferOverrun

text \<open>
  The lines the source logs as errors: the view-heap overflow with its argument
  \<open>MaxNumDescriptors * 2\<close>, and the failed \<open>ensureMsgf\<close> of the full compare.
\<close>

datatype log_line =
    ViewHeapOverflowError uint32
  | HashCollisionEnsure

record FEntry =
  Type :: D3D12_DESCRIPTOR_HEAP_TYPE
  NumDescriptors :: uint32
  Heap :: ID3D12DescriptorHeap
  LastUsedFrame :: uint64
  LastUsedTime :: real

text \<open>
  The process-wide variables of the file, the error lines written by \<open>UE_LOG\<close> and
  \<open>ensureMsgf\<close>, and the trace of the device's descriptor copies (destination handle,
  source handles): a call that leaves this record unchanged has logged nothing and has
  copied nothing.
\<close>

record Globals =
  GD3D12ExplicitDeduplicateSamplers :: int32
  GD3D12ExplicitViewDescriptorHeapSize :: int32
  GD3D12ExplicitViewDescriptorHeapOverflowReported :: int32
  ErrorLog :: "log_line list"
  DeviceCopies :: "(D3D12_CPU_DESCRIPTOR_HANDLE \<times> D3D12_CPU_DESCRIPTOR_HANDLE list) list"

record FD3D12ExplicitDescriptorHeap =
  HeapType :: D3D12_DESCRIPTOR_HEAP_TYPE
  D3D12Heap :: ID3D12DescriptorHeap
  HeapCacheEntry :: FEntry
  CPUBase :: uint64
  GPUBase :: uint64
  DescriptorSize :: uint32
  MaxNumDescriptors :: uint32
  NumAllocatedDescriptors :: int32
  NumWrittenSamplerDescriptors :: int32
  bExhaustiveSamplerDeduplication :: bool
  Descriptors :: "D3D12_CPU_DESCRIPTOR_HANDLE list"

section \<open>FD3D12ExplicitDescriptorHeap::Allocate\<close>

text \<open>
  \<open>InterlockedAdd\<close> returns the cursor's old value and stores the sum; the test
  \<open>Result + InNumDescriptors > MaxNumDescriptors\<close> is evaluated in \<open>uint32\<close>. On overflow
  a sampler heap logs at Fatal verbosity, which does not return. Otherwise the view-heap
  error is logged when the configured size is at most the heap's capacity and
  \<open>InterlockedOr\<close> finds the process-wide flag still 0 (\<open>&&\<close> short-circuits: the flag is
  only touched when the first test holds).
\<close>

definition Allocate ::
  "FD3D12ExplicitDescriptorHeap \<Rightarrow> Globals \<Rightarrow> uint32 \<Rightarrow>
     error + (FD3D12ExplicitDescriptorHeap \<times> Globals \<times> int32)" where
  "Allocate H G InNumDescriptors =
     (let Result = NumAllocatedDescriptors H;
          H' = H\<lparr>NumAllocatedDescriptors := NumAllocatedDescriptors H + InNumDescriptors\<rparr>
      in if Result + InNumDescriptors > MaxNumDescriptors H then
           (if HeapType H = D3D12_DESCRIPTOR_HEAP_TYPE_SAMPLER then Inl FatalSamplerHeapOverflow
            else if GD3D12ExplicitViewDescriptorHeapSize G \<le> MaxNumDescriptors H then
              (let Old = GD3D12ExplicitViewDescriptorHeapOverflowReported G;
                   G' = G\<lparr>GD3D12ExplicitViewDescriptorHeapOverflowReported := Old OR 1\<rparr>
               in if Old = 0
                  then Inr (H', G'\<lparr>ErrorLog := ErrorLog G' @
                                [ViewHeapOverflowError (MaxNumDescriptors H * 2)]\<rparr>, INDEX_NONE)
                  else Inr (H', G', INDEX_NONE))
            else Inr (H', G, INDEX_NONE))
         else Inr (H', G, Result))"

text \<open>
  A run of \<open>Allocate\<close> calls on one heap, in the order in which their atomic additions
  take effect. Each call that returns is recorded with its count, the value it returned
  and the cursor it left behind; the run ends at a call that does not return.
\<close>

record AllocateCall =
  Count :: uint32
  Returned :: int32
  CursorAfter :: int32

fun AllocateSeq ::
  "FD3D12ExplicitDescriptorHeap \<Rightarrow> Globals \<Rightarrow> uint32 list \<Rightarrow>
     AllocateCall list \<times> (error + (FD3D12ExplicitDescriptorHeap \<times> Globals))" where
  "AllocateSeq H G [] = ([], Inr (H, G))"
| "AllocateSeq H G (n # ns) =
     (case Allocate H G n of
        Inl e \<Rightarrow> ([], Inl e)
      | Inr (H', G', r) \<Rightarrow>
          (let (tr, fin) = AllocateSeq H' G' ns
           in (\<lparr>Count = n, Returned = r, CursorAfter = NumAllocatedDescriptors H'\<rparr> # tr, fin)))"

text \<open>
  The calls of a run that returned an offset, and the descriptor range
  \<open>[offset, offset + n)\<close> such a call hands out (the offset read as the \<open>int32\<close> it is).
\<close>

definition accepted :: "AllocateCall list \<Rightarrow> AllocateCall list" where
  "accepted tr = filter (\<lambda>c. Returned c \<noteq> INDEX_NONE) tr"

definition DescriptorRange :: "AllocateCall \<Rightarrow> int set" where
  "DescriptorRange c = {sint (Returned c) ..< sint (Returned c) + uint (Count c)}"

definition TotalCount :: "AllocateCall list \<Rightarrow> nat" where
  "TotalCount tr = sum_list (map (\<lambda>c. unat (Count c)) tr)"

section \<open>Build configuration, SDK constants and engine helpers\<close>

text \<open>
  The preprocessor switches of the file and the one SDK constant whose value neither the
  source nor the specification gives. \<open>EXPLICIT_DESCRIPTOR_CACHE_FULL_COMPARE\<close> is 0 unless
  the build defines it (line 16 of the source).
\<close>

record Build =
  EXPLICIT_DESCRIPTOR_CACHE_FULL_COMPARE :: bool
  PLATFORM_SUPPORTS_BINDLESS_RENDERING :: bool
  D3D12_MAX_SHADER_VISIBLE_DESCRIPTOR_HEAP_SIZE_TIER_1 :: uint32

text \<open>
  Modelled from the spec: the constant \<open>D3D12_MAX_SHADER_VISIBLE_SAMPLER_HEAP_SIZE\<close> of the
  D3D12 headers is not under src/. The specification gives the sampler ceiling as 2048,
  and so does the text of the source's own Fatal message.
\<close>

definition D3D12_MAX_SHADER_VISIBLE_SAMPLER_HEAP_SIZE :: uint32 where
  "D3D12_MAX_SHADER_VISIBLE_SAMPLER_HEAP_SIZE = 2048"

text \<open>
  Modelled from the spec: \<open>FMath::RoundUpToPowerOfTwo\<close> and \<open>FMath::Clamp\<close> are engine
  helpers that are not under src/. The specification says that the requested count is
  rounded up to the next power of two and clamped to the type's maximum.
  \<open>RoundUpToPowerOfTwo\<close> is the least power of two that is not below its argument, kept
  in 32 bits (so 0 for an argument above \<open>2 ^ 31\<close>); \<open>BitLength n\<close> is the number of binary
  digits of \<open>n\<close>.
\<close>

fun BitLength :: "nat \<Rightarrow> nat" where
  "BitLength n = (if n = 0 then 0 else Suc (BitLength (n div 2)))"

declare BitLength.simps [simp del]

definition RoundUpToPowerOfTwo :: "uint32 \<Rightarrow> uint32" where
  "RoundUpToPowerOfTwo X = of_nat (2 ^ BitLength (unat X - 1))"

definition Clamp :: "uint32 \<Rightarrow> uint32 \<Rightarrow> uint32 \<Rightarrow> uint32" where
  "Clamp X MinValue MaxValue = max MinValue (min X MaxValue)"

text \<open>
  Modelled from the spec: \<open>TArray::RemoveAtSwap\<close> is not under src/. The specification
  calls it a swap-remove that does not preserve order: the last element takes the place
  of the removed one and the array shrinks by one.
\<close>

definition RemoveAtSwap :: "nat \<Rightarrow> 'a list \<Rightarrow> 'a list" where
  "RemoveAtSwap Index xs = butlast (xs[Index := last xs])"

section \<open>FD3D12ExplicitDescriptorHeapCache\<close>

text \<open>
  The cache's members, and the calls it makes on its collaborators in the order it makes
  them: heaps handed to \<open>FD3D12DynamicRHI::DeferredDelete\<close>, heaps released at once with
  \<open>ID3D12DescriptorHeap::Release\<close>, and the descriptions (type and size) passed to
  \<open>ID3D12Device::CreateDescriptorHeap\<close>. The statistics counters and the \<open>Log\<close>-level
  message are not modelled.
\<close>

record FD3D12ExplicitDescriptorHeapCache =
  FreeList :: "FEntry list"
  NumAllocatedEntries :: uint32
  DeferredDeleteQueue :: "ID3D12DescriptorHeap list"
  ReleasedHeaps :: "ID3D12DescriptorHeap list"
  CreatedHeaps :: "(D3D12_DESCRIPTOR_HEAP_TYPE \<times> uint32) list"

text \<open>
  What the device and the platform answer while one entry point runs: the next fence
  value of the frame fence, the clock (a \<open>double\<close>, idealised as a real number), the
  result of \<open>CreateDescriptorHeap\<close> for a description (\<open>None\<close> is a failure code), the
  start handles of a heap, the handle increment of a heap type, and the bytes found in
  memory that \<open>SetNumUninitialized\<close> hands out.
\<close>

record FD3D12Device =
  NextFenceToSignal :: uint64
  Seconds :: real
  CreateDescriptorHeap :: "D3D12_DESCRIPTOR_HEAP_TYPE \<times> uint32 \<Rightarrow> ID3D12DescriptorHeap option"
  CPUDescriptorHandleForHeapStart :: "ID3D12DescriptorHeap \<Rightarrow> uint64"
  GPUDescriptorHandleForHeapStart :: "ID3D12DescriptorHeap \<Rightarrow> uint64"
  DescriptorHandleIncrementSize :: "D3D12_DESCRIPTOR_HEAP_TYPE \<Rightarrow> uint32"
  UninitializedMemory :: "nat \<Rightarrow> D3D12_CPU_DESCRIPTOR_HANDLE"

text \<open>
  The destructor: \<open>check(NumAllocatedEntries == 0)\<close>, then one \<open>Release\<close> per free entry.
  A failed \<open>check\<close> is a result of its own (the macro is compiled in wherever the engine
  checks assertions).
\<close>

fun ReleaseEach :: "FEntry list \<Rightarrow> ID3D12DescriptorHeap list \<Rightarrow> ID3D12DescriptorHeap list" where
  "ReleaseEach [] Released = Released"
| "ReleaseEach (It # Rest) Released = ReleaseEach Rest (Released @ [Heap It])"

definition Destroy_FD3D12ExplicitDescriptorHeapCache ::
  "FD3D12ExplicitDescriptorHeapCache \<Rightarrow> error + FD3D12ExplicitDescriptorHeapCache" where
  "Destroy_FD3D12ExplicitDescriptorHeapCache C =
     (if NumAllocatedEntries C \<noteq> 0 then Inl CheckFailed
      else Inr (C\<lparr>ReleasedHeaps := ReleaseEach (FreeList C) (ReleasedHeaps C), FreeList := []\<rparr>))"

definition ReleaseHeap ::
  "FD3D12Device \<Rightarrow> FD3D12ExplicitDescriptorHeapCache \<Rightarrow> FEntry \<Rightarrow>
     error + FD3D12ExplicitDescriptorHeapCache" where
  "ReleaseHeap Dev C Entry =
     (if NumAllocatedEntries C = 0 then Inl CheckFailed
      else Inr (C\<lparr>FreeList := FreeList C @
                     [Entry\<lparr>LastUsedFrame := NextFenceToSignal Dev, LastUsedTime := Seconds Dev\<rparr>],
                  NumAllocatedEntries := NumAllocatedEntries C - 1\<rparr>))"

text \<open>
  The test of lines 162 and 163: the frame sum is formed in \<open>uint64\<close> (and wraps there),
  the time sum in \<open>double\<close>.
\<close>

definition IsStale :: "FD3D12Device \<Rightarrow> uint32 \<Rightarrow> real \<Rightarrow> FEntry \<Rightarrow> bool" where
  "IsStale Dev MaxAgeInFrames MaxAgeInSeconds It =
     (LastUsedFrame It + ucast MaxAgeInFrames \<le> NextFenceToSignal Dev
      \<or> LastUsedTime It + MaxAgeInSeconds \<le> Seconds Dev)"

function ReleaseStaleLoop ::
  "FD3D12Device \<Rightarrow> uint32 \<Rightarrow> real \<Rightarrow> nat \<Rightarrow> FD3D12ExplicitDescriptorHeapCache \<Rightarrow>
     FD3D12ExplicitDescriptorHeapCache" where
  "ReleaseStaleLoop Dev MaxAgeInFrames MaxAgeInSeconds EntryIndex C =
     (if EntryIndex < length (FreeList C) then
        (let It = FreeList C ! EntryIndex
         in if IsStale Dev MaxAgeInFrames MaxAgeInSeconds It
            then ReleaseStaleLoop Dev MaxAgeInFrames MaxAgeInSeconds EntryIndex
                   (C\<lparr>DeferredDeleteQueue := DeferredDeleteQueue C @ [Heap It],
                      FreeList := RemoveAtSwap EntryIndex (FreeList C)\<rparr>)
            else ReleaseStaleLoop Dev MaxAgeInFrames MaxAgeInSeconds (EntryIndex + 1) C)
      else C)"
  by pat_completeness auto
termination
  by (relation "measure (\<lambda>(Dev, F, S, EntryIndex, C). length (FreeList C) - EntryIndex)")
     (auto simp: RemoveAtSwap_def)

declare ReleaseStaleLoop.simps [simp del]

definition ReleaseStaleEntries ::
  "FD3D12Device \<Rightarrow> FD3D12ExplicitDescriptorHeapCache \<Rightarrow> uint32 \<Rightarrow> real \<Rightarrow>
     FD3D12ExplicitDescriptorHeapCache" where
  "ReleaseStaleEntries Dev C MaxAgeInFrames MaxAgeInSeconds =
     ReleaseStaleLoop Dev MaxAgeInFrames MaxAgeInSeconds 0 C"

text \<open>The scan of lines 102 to 112: the index of the first compatible entry, if there is one.\<close>

definition IsCompatible :: "D3D12_DESCRIPTOR_HEAP_TYPE \<Rightarrow> uint32 \<Rightarrow> FEntry \<Rightarrow> bool" where
  "IsCompatible T N It = (Type It = T \<and> NumDescriptors It \<ge> N)"

function FindCompatible ::
  "FEntry list \<Rightarrow> D3D12_DESCRIPTOR_HEAP_TYPE \<Rightarrow> uint32 \<Rightarrow> nat \<Rightarrow> nat option" where
  "FindCompatible Entries T N EntryIndex =
     (if EntryIndex < length Entries then
        (if IsCompatible T N (Entries ! EntryIndex) then Some EntryIndex
         else FindCompatible Entries T N (EntryIndex + 1))
      else None)"
  by pat_completeness auto
termination
  by (relation "measure (\<lambda>(Entries, T, N, EntryIndex). length Entries - EntryIndex)") auto

declare FindCompatible.simps [simp del]

text \<open>The request as line 96 aligns it (the source reuses the parameter \<open>NumDescriptors\<close> for the result).\<close>

definition AlignedNumDescriptors :: "Build \<Rightarrow> D3D12_DESCRIPTOR_HEAP_TYPE \<Rightarrow> uint32 \<Rightarrow> uint32" where
  "AlignedNumDescriptors B T Requested =
     (let MaxDescriptors =
            (if T = D3D12_DESCRIPTOR_HEAP_TYPE_SAMPLER then D3D12_MAX_SHADER_VISIBLE_SAMPLER_HEAP_SIZE
             else D3D12_MAX_SHADER_VISIBLE_DESCRIPTOR_HEAP_SIZE_TIER_1 B)
      in Clamp (RoundUpToPowerOfTwo Requested) 0 MaxDescriptors)"

definition AllocateHeap ::
  "Build \<Rightarrow> FD3D12Device \<Rightarrow> FD3D12ExplicitDescriptorHeapCache \<Rightarrow> D3D12_DESCRIPTOR_HEAP_TYPE \<Rightarrow>
     uint32 \<Rightarrow> error + (FD3D12ExplicitDescriptorHeapCache \<times> FEntry)" where
  "AllocateHeap B Dev C T InNumDescriptors =
     (let Aligned = AlignedNumDescriptors B T InNumDescriptors;
          C1 = C\<lparr>NumAllocatedEntries := NumAllocatedEntries C + 1\<rparr>
      in case FindCompatible (FreeList C1) T Aligned 0 of
           Some EntryIndex \<Rightarrow>
             Inr (C1\<lparr>FreeList := RemoveAtSwap EntryIndex (FreeList C1)\<rparr>, FreeList C1 ! EntryIndex)
         | None \<Rightarrow>
             (let C2 = ReleaseStaleEntries Dev C1 100 5;
                  C3 = C2\<lparr>CreatedHeaps := CreatedHeaps C2 @ [(T, Aligned)]\<rparr>
              in case CreateDescriptorHeap Dev (T, Aligned) of
                   None \<Rightarrow> Inl FatalCreateDescriptorHeapFailed
                 | Some NewHeap \<Rightarrow>
                     Inr (C3, \<lparr>Type = T, NumDescriptors = Aligned, Heap = NewHeap,
                               LastUsedFrame = 0, LastUsedTime = 0\<rparr>)))"

definition FlushFreeList :: "FD3D12ExplicitDescriptorHeapCache \<Rightarrow> FD3D12ExplicitDescriptorHeapCache" where
  "FlushFreeList C =
     C\<lparr>DeferredDeleteQueue := DeferredDeleteQueue C @ map Heap (FreeList C), FreeList := []\<rparr>"

section \<open>FD3D12ExplicitDescriptorHeap::Init\<close>

text \<open>
  \<open>check(D3D12Heap == nullptr)\<close>, the entry from the heap cache, the capacity taken from
  the entry, \<open>checkf(CPUBase.ptr, ...)\<close>, and the shadow array: zeroed for a sampler
  heap under exhaustive deduplication, uninitialised when only the full compare needs it,
  left alone otherwise. The check lets \<open>Init\<close> run once on a heap object, so the shadow
  array is empty when it is sized.
\<close>

definition Init ::
  "Build \<Rightarrow> Globals \<Rightarrow> FD3D12Device \<Rightarrow> FD3D12ExplicitDescriptorHeapCache \<Rightarrow>
     FD3D12ExplicitDescriptorHeap \<Rightarrow> uint32 \<Rightarrow> D3D12_DESCRIPTOR_HEAP_TYPE \<Rightarrow>
     error + (FD3D12ExplicitDescriptorHeapCache \<times> FD3D12ExplicitDescriptorHeap)" where
  "Init B G Dev C H InMaxNumDescriptors InType =
     (if D3D12Heap H \<noteq> nullptr then Inl CheckFailed
      else case AllocateHeap B Dev C InType InMaxNumDescriptors of
             Inl e \<Rightarrow> Inl e
           | Inr (C', Entry) \<Rightarrow>
               (let Base = CPUDescriptorHandleForHeapStart Dev (Heap Entry);
                    bExhaustive = (GD3D12ExplicitDeduplicateSamplers G = 1);
                    Capacity = NumDescriptors Entry
                in if Base = 0 then Inl CheckFailed
                   else Inr (C',
                     H\<lparr>HeapType := InType,
                       HeapCacheEntry := Entry,
                       MaxNumDescriptors := Capacity,
                       D3D12Heap := Heap Entry,
                       CPUBase := Base,
                       GPUBase := GPUDescriptorHandleForHeapStart Dev (Heap Entry),
                       DescriptorSize := DescriptorHandleIncrementSize Dev InType,
                       bExhaustiveSamplerDeduplication := bExhaustive,
                       Descriptors :=
                         (if bExhaustive \<and> InType = D3D12_DESCRIPTOR_HEAP_TYPE_SAMPLER
                          then replicate (unat Capacity) 0
                          else if EXPLICIT_DESCRIPTOR_CACHE_FULL_COMPARE B
                          then map (UninitializedMemory Dev) [0 ..< unat Capacity]
                          else Descriptors H)\<rparr>)))"

section \<open>Descriptor copies and comparisons of FD3D12ExplicitDescriptorHeap\<close>

text \<open>
  \<open>GetDescriptorCPU\<close>: the product \<open>Index * DescriptorSize\<close> is formed in \<open>uint32\<close> and
  then added to the 64-bit base (\<open>checkSlow\<close> is compiled out of all but debug builds and
  is not modelled).
\<close>

definition GetDescriptorCPU :: "FD3D12ExplicitDescriptorHeap \<Rightarrow> uint32 \<Rightarrow> D3D12_CPU_DESCRIPTOR_HANDLE" where
  "GetDescriptorCPU H Index = CPUBase H + ucast (Index * DescriptorSize H)"

definition GetDescriptorGPU :: "FD3D12ExplicitDescriptorHeap \<Rightarrow> uint32 \<Rightarrow> uint64" where
  "GetDescriptorGPU H Index = GPUBase H + ucast (Index * DescriptorSize H)"

text \<open>
  The loops over \<open>i < InNumDescriptors\<close>. The index \<open>BaseIndex + i\<close> is formed in 32 bits
  and handed to \<open>TArray::operator[]\<close> as an \<open>int32\<close>, which checks it against the array;
  a read past the caller's buffer is an error of its own.
\<close>

function MirrorLoop ::
  "D3D12_CPU_DESCRIPTOR_HANDLE list \<Rightarrow> int32 \<Rightarrow> D3D12_CPU_DESCRIPTOR_HANDLE list \<Rightarrow> nat \<Rightarrow> nat \<Rightarrow>
     error + D3D12_CPU_DESCRIPTOR_HANDLE list" where
  "MirrorLoop Shadow BaseIndex InDescriptors n i =
     (if i < n then
        (let Index = sint (BaseIndex + of_nat i)
         in if length InDescriptors \<le> i then Inl BufferOverrun
            else if Index < 0 \<or> int (length Shadow) \<le> Index then Inl RangeCheckFailed
            else MirrorLoop (Shadow[nat Index := InDescriptors ! i]) BaseIndex InDescriptors n (i + 1))
      else Inr Shadow)"
  by pat_completeness auto
termination
  by (relation "measure (\<lambda>(Shadow, BaseIndex, InDescriptors, n, i). n - i)") auto

declare MirrorLoop.simps [simp del]

function CompareLoop ::
  "D3D12_CPU_DESCRIPTOR_HANDLE list \<Rightarrow> int32 \<Rightarrow> D3D12_CPU_DESCRIPTOR_HANDLE list \<Rightarrow> nat \<Rightarrow> nat \<Rightarrow>
     error + bool" where
  "CompareLoop Shadow BaseIndex InDescriptors n i =
     (if i < n then
        (let Index = sint (BaseIndex + of_nat i)
         in if length InDescriptors \<le> i then Inl BufferOverrun
            else if Index < 0 \<or> int (length Shadow) \<le> Index then Inl RangeCheckFailed
            else if Shadow ! nat Index \<noteq> InDescriptors ! i then Inr False
            else CompareLoop Shadow BaseIndex InDescriptors n (i + 1))
      else Inr True)"
  by pat_completeness auto
termination
  by (relation "measure (\<lambda>(Shadow, BaseIndex, InDescriptors, n, i). n - i)") auto

declare CompareLoop.simps [simp del]

text \<open>
  \<open>CopyDescriptors\<close>: the device copy reads \<open>InNumDescriptors\<close> handles of the caller's
  buffer and is recorded in the trace; the shadow array is written only when the full
  compare is compiled in (lines 280 to 285).
\<close>

definition CopyDescriptors ::
  "Build \<Rightarrow> FD3D12ExplicitDescriptorHeap \<Rightarrow> Globals \<Rightarrow> int32 \<Rightarrow> D3D12_CPU_DESCRIPTOR_HANDLE list \<Rightarrow>
     uint32 \<Rightarrow> error + (FD3D12ExplicitDescriptorHeap \<times> Globals)" where
  "CopyDescriptors B H G BaseIndex InDescriptors InNumDescriptors =
     (let DestDescriptor = GetDescriptorCPU H BaseIndex;
          G' = G\<lparr>DeviceCopies := DeviceCopies G @
                   [(DestDescriptor, take (unat InNumDescriptors) InDescriptors)]\<rparr>
      in if length InDescriptors < unat InNumDescriptors then Inl BufferOverrun
         else if EXPLICIT_DESCRIPTOR_CACHE_FULL_COMPARE B then
           (case MirrorLoop (Descriptors H) BaseIndex InDescriptors (unat InNumDescriptors) 0 of
              Inl e \<Rightarrow> Inl e
            | Inr Shadow \<Rightarrow> Inr (H\<lparr>Descriptors := Shadow\<rparr>, G'))
         else Inr (H, G'))"

definition CompareDescriptors ::
  "FD3D12ExplicitDescriptorHeap \<Rightarrow> int32 \<Rightarrow> D3D12_CPU_DESCRIPTOR_HANDLE list \<Rightarrow> uint32 \<Rightarrow> error + bool" where
  "CompareDescriptors H BaseIndex InDescriptors InNumDescriptors =
     CompareLoop (Descriptors H) BaseIndex InDescriptors (unat InNumDescriptors) 0"

section \<open>FD3D12ExplicitDescriptorCache\<close>

text \<open>
  The per-worker data and the cache. The type of the worker's reserved view range
  (\<open>ReservedViewDescriptors\<close>) and the bindless configuration are declared in headers
  that are not under src/; they are type parameters here, and the functions of theirs
  that the source calls are parameters: the two queries of the bindless descriptor
  manager, the two uses of \<open>FXxHash64::HashBuffer\<close> (over the version array and over the
  handle array), and \<open>ReservedViewDescriptors.Allocate\<close>, which returns the range's new
  state and an offset or \<open>INDEX_NONE\<close>.
\<close>

record 'r FWorkerThreadData =
  ViewDescriptorTableCache :: "uint64 \<rightharpoonup> int32"
  SamplerDescriptorTableCache :: "uint64 \<rightharpoonup> int32"
  ReservedViewDescriptors :: 'r

record ('r, 'b) FD3D12ExplicitDescriptorCache =
  ViewHeap :: FD3D12ExplicitDescriptorHeap
  SamplerHeap :: FD3D12ExplicitDescriptorHeap
  WorkerData :: "'r FWorkerThreadData list"
  BindlessConfiguration :: 'b
  bBindlessViews :: bool
  bBindlessSamplers :: bool

record 'b FD3D12BindlessDescriptorManager =
  AreResourcesBindless :: "'b \<Rightarrow> bool"
  AreSamplersBindless :: "'b \<Rightarrow> bool"

record 'r Engine =
  HashBufferVersions :: "uint32 list \<Rightarrow> uint64"
  HashBufferDescriptors :: "D3D12_CPU_DESCRIPTOR_HANDLE list \<Rightarrow> uint64"
  ReservedAllocate :: "'r \<Rightarrow> uint32 \<Rightarrow> 'r \<times> int32"

text \<open>
  \<open>FD3D12ExplicitDescriptorCache::Init\<close>. Without platform support for bindless rendering
  the two flags are local constants, both false, and the members are not touched.
\<close>

definition Cache_Init ::
  "Build \<Rightarrow> Globals \<Rightarrow> FD3D12Device \<Rightarrow> 'b FD3D12BindlessDescriptorManager \<Rightarrow>
     FD3D12ExplicitDescriptorHeapCache \<Rightarrow> ('r, 'b) FD3D12ExplicitDescriptorCache \<Rightarrow>
     uint32 \<Rightarrow> uint32 \<Rightarrow> uint32 \<Rightarrow> 'b \<Rightarrow>
     error + (FD3D12ExplicitDescriptorHeapCache \<times> ('r, 'b) FD3D12ExplicitDescriptorCache)" where
  "Cache_Init B G Dev BindlessManager HC C NumConstantDescriptors NumViewDescriptors
       NumSamplerDescriptors BindlessConfig =
     (let C1 = (if PLATFORM_SUPPORTS_BINDLESS_RENDERING B
                then C\<lparr>BindlessConfiguration := BindlessConfig,
                       bBindlessViews := AreResourcesBindless BindlessManager BindlessConfig,
                       bBindlessSamplers := AreSamplersBindless BindlessManager BindlessConfig\<rparr>
                else C);
          BindlessViews = (PLATFORM_SUPPORTS_BINDLESS_RENDERING B \<and> bBindlessViews C1);
          BindlessSamplers = (PLATFORM_SUPPORTS_BINDLESS_RENDERING B \<and> bBindlessSamplers C1);
          TotalViewDescriptors =
            NumConstantDescriptors + (if BindlessViews then 0 else NumViewDescriptors)
      in case (if TotalViewDescriptors \<noteq> 0
               then (case Init B G Dev HC (ViewHeap C1) TotalViewDescriptors
                            D3D12_DESCRIPTOR_HEAP_TYPE_CBV_SRV_UAV of
                       Inl e \<Rightarrow> Inl e
                     | Inr (HC1, H) \<Rightarrow> Inr (HC1, C1\<lparr>ViewHeap := H\<rparr>))
               else Inr (HC, C1)) of
           Inl e \<Rightarrow> Inl e
         | Inr (HC1, C2) \<Rightarrow>
             (if \<not> BindlessSamplers
              then (case Init B G Dev HC1 (SamplerHeap C2) NumSamplerDescriptors
                           D3D12_DESCRIPTOR_HEAP_TYPE_SAMPLER of
                      Inl e \<Rightarrow> Inl e
                    | Inr (HC2, H) \<Rightarrow> Inr (HC2, C2\<lparr>SamplerHeap := H\<rparr>))
              else Inr (HC1, C2)))"

text \<open>
  The references \<open>Heap\<close> and \<open>Map\<close> of lines 346 to 349 and 402: anything that is not the
  view type selects the sampler heap and the sampler table.
\<close>

definition HeapOf :: "D3D12_DESCRIPTOR_HEAP_TYPE \<Rightarrow> ('r, 'b) FD3D12ExplicitDescriptorCache \<Rightarrow>
    FD3D12ExplicitDescriptorHeap" where
  "HeapOf T C = (if T = D3D12_DESCRIPTOR_HEAP_TYPE_CBV_SRV_UAV then ViewHeap C else SamplerHeap C)"

definition SetHeapOf :: "D3D12_DESCRIPTOR_HEAP_TYPE \<Rightarrow> FD3D12ExplicitDescriptorHeap \<Rightarrow>
    ('r, 'b) FD3D12ExplicitDescriptorCache \<Rightarrow> ('r, 'b) FD3D12ExplicitDescriptorCache" where
  "SetHeapOf T H C =
     (if T = D3D12_DESCRIPTOR_HEAP_TYPE_CBV_SRV_UAV then C\<lparr>ViewHeap := H\<rparr> else C\<lparr>SamplerHeap := H\<rparr>)"

definition MapOf :: "D3D12_DESCRIPTOR_HEAP_TYPE \<Rightarrow> 'r FWorkerThreadData \<Rightarrow> (uint64 \<rightharpoonup> int32)" where
  "MapOf T W =
     (if T = D3D12_DESCRIPTOR_HEAP_TYPE_CBV_SRV_UAV then ViewDescriptorTableCache W
      else SamplerDescriptorTableCache W)"

definition SetMapOf :: "D3D12_DESCRIPTOR_HEAP_TYPE \<Rightarrow> (uint64 \<rightharpoonup> int32) \<Rightarrow> 'r FWorkerThreadData \<Rightarrow>
    'r FWorkerThreadData" where
  "SetMapOf T M W =
     (if T = D3D12_DESCRIPTOR_HEAP_TYPE_CBV_SRV_UAV then W\<lparr>ViewDescriptorTableCache := M\<rparr>
      else W\<lparr>SamplerDescriptorTableCache := M\<rparr>)"

text \<open>Writing through the reference \<open>DescriptorTableBaseIndex\<close> that \<open>FindOrAdd\<close> returned.\<close>

definition SetTableBaseIndex ::
  "D3D12_DESCRIPTOR_HEAP_TYPE \<Rightarrow> nat \<Rightarrow> uint64 \<Rightarrow> int32 \<Rightarrow> ('r, 'b) FD3D12ExplicitDescriptorCache \<Rightarrow>
     ('r, 'b) FD3D12ExplicitDescriptorCache" where
  "SetTableBaseIndex T w Key v C =
     C\<lparr>WorkerData := (WorkerData C)[w := SetMapOf T ((MapOf T (WorkerData C ! w))(Key \<mapsto> v))
                                              (WorkerData C ! w)]\<rparr>"

text \<open>
  \<open>FD3D12ExplicitDescriptorCache::Allocate\<close>: the worker's reserved range first for views,
  the heap's cursor otherwise; then the copy, and for samplers under exhaustive
  deduplication the count of written descriptors.
\<close>

definition Cache_Allocate ::
  "Build \<Rightarrow> 'r Engine \<Rightarrow> ('r, 'b) FD3D12ExplicitDescriptorCache \<Rightarrow> Globals \<Rightarrow>
     D3D12_CPU_DESCRIPTOR_HANDLE list \<Rightarrow> uint32 \<Rightarrow> D3D12_DESCRIPTOR_HEAP_TYPE \<Rightarrow> uint32 \<Rightarrow>
     error + (('r, 'b) FD3D12ExplicitDescriptorCache \<times> Globals \<times> int32)" where
  "Cache_Allocate B E C G InDescriptors InNumDescriptors T WorkerIndex =
     (case
        (if T = D3D12_DESCRIPTOR_HEAP_TYPE_CBV_SRV_UAV then
           (if length (WorkerData C) \<le> unat WorkerIndex then Inl RangeCheckFailed
            else
              (let W = WorkerData C ! unat WorkerIndex;
                   (R, Reserved) = ReservedAllocate E (ReservedViewDescriptors W) InNumDescriptors;
                   C1 = C\<lparr>WorkerData := (WorkerData C)[unat WorkerIndex :=
                                             W\<lparr>ReservedViewDescriptors := R\<rparr>]\<rparr>
               in if Reserved = INDEX_NONE then
                    (case Allocate (ViewHeap C1) G InNumDescriptors of
                       Inl e \<Rightarrow> Inl e
                     | Inr (H, G1, r) \<Rightarrow> Inr (C1\<lparr>ViewHeap := H\<rparr>, G1, r))
                  else Inr (C1, G, Reserved)))
         else
           (case Allocate (SamplerHeap C) G InNumDescriptors of
              Inl e \<Rightarrow> Inl e
            | Inr (H, G1, r) \<Rightarrow> Inr (C\<lparr>SamplerHeap := H\<rparr>, G1, r))) of
        Inl e \<Rightarrow> Inl e
      | Inr (C2, G2, DescriptorTableBaseIndex) \<Rightarrow>
          (if DescriptorTableBaseIndex = INDEX_NONE then Inr (C2, G2, INDEX_NONE)
           else
             (case CopyDescriptors B (HeapOf T C2) G2 DescriptorTableBaseIndex InDescriptors
                     InNumDescriptors of
                Inl e \<Rightarrow> Inl e
              | Inr (H, G3) \<Rightarrow>
                  (let H1 = (if bExhaustiveSamplerDeduplication H \<and> T = D3D12_DESCRIPTOR_HEAP_TYPE_SAMPLER
                             then H\<lparr>NumWrittenSamplerDescriptors :=
                                      NumWrittenSamplerDescriptors H + InNumDescriptors\<rparr>
                             else H)
                   in Inr (SetHeapOf T H1 C2, G3, DescriptorTableBaseIndex)))))"

text \<open>
  The exhaustive search of lines 375 to 384. The loop test
  \<open>SearchIndex + int32(NumDescriptors) < SearchEndPos\<close> compares \<open>int32\<close> values; the sum
  is formed in 32 bits.
\<close>

function SearchLoop ::
  "FD3D12ExplicitDescriptorHeap \<Rightarrow> D3D12_CPU_DESCRIPTOR_HANDLE list \<Rightarrow> uint32 \<Rightarrow> int32 \<Rightarrow> int32 \<Rightarrow>
     error + int32" where
  "SearchLoop H InDescriptors InNumDescriptors SearchEndPos SearchIndex =
     (if sint (SearchIndex + InNumDescriptors) < sint SearchEndPos then
        (case CompareDescriptors H SearchIndex InDescriptors InNumDescriptors of
           Inl e \<Rightarrow> Inl e
         | Inr Equal \<Rightarrow>
             if Equal then Inr SearchIndex
             else SearchLoop H InDescriptors InNumDescriptors SearchEndPos (SearchIndex + 1))
      else Inr INDEX_NONE)"
  by pat_completeness auto
termination
proof (relation "measure (\<lambda>(H, Ds, n, E, i). nat (2 ^ 31 - sint (i + n)))")
  show "wf (measure (\<lambda>(H :: FD3D12ExplicitDescriptorHeap, Ds :: D3D12_CPU_DESCRIPTOR_HANDLE list,
                        n :: uint32, E :: int32, i :: int32). nat (2 ^ 31 - sint (i + n))))"
    by simp
next
  fix H :: FD3D12ExplicitDescriptorHeap and Ds :: "D3D12_CPU_DESCRIPTOR_HANDLE list"
    and n E i :: "32 word"
  assume cond: "sint (i + n) < sint E"
  have "sint E < 2 ^ 31" using sint_lt [of E] by simp
  with cond have up: "sint (i + n) + 1 < 2 ^ 31" by simp
  have "- (2 ^ 31) \<le> sint (i + n)" using sint_ge [of "i + n"] by simp
  then have lo: "- (2 ^ 31) \<le> sint (i + n) + 1" by simp
  have e: "i + 1 + n = (i + n) + 1" by (simp add: ac_simps)
  have "sint (i + 1 + n) = signed_take_bit 31 (sint (i + n) + sint (1 :: 32 word))"
    unfolding e using sint_word_add [of "i + n" 1] by simp
  also have "\<dots> = signed_take_bit 31 (sint (i + n) + 1)" by simp
  also have "\<dots> = sint (i + n) + 1" using lo up by (rule signed_take_bit_int_eq_self)
  finally have "sint (i + 1 + n) = sint (i + n) + 1" .
  then show "((H, Ds, n, E, i + 1), (H, Ds, n, E, i))
      \<in> measure (\<lambda>(H, Ds, n, E, i). nat (2 ^ 31 - sint (i + n)))"
    using up by simp
qed

declare SearchLoop.simps [simp del]

text \<open>
  \<open>FD3D12ExplicitDescriptorCache::AllocateDeduplicated\<close>. \<open>FindOrAdd(Key, INDEX_NONE)\<close>
  inserts the sentinel under a new key and yields a reference to the stored value. With
  the full compare compiled in, a stored offset is returned only if the shadow array
  agrees with the request; a failed \<open>ensureMsgf\<close> is logged and the call goes on as for a
  miss. The two hashes of lines 351 to 353 read \<open>NumDescriptors\<close> elements of the
  caller's buffers; \<open>Fingerprint\<close> is their exclusive or, the key of the table.
\<close>

definition Fingerprint ::
  "'r Engine \<Rightarrow> uint32 list \<Rightarrow> D3D12_CPU_DESCRIPTOR_HANDLE list \<Rightarrow> uint32 \<Rightarrow> uint64" where
  "Fingerprint E DescriptorVersions InDescriptors InNumDescriptors =
     (let VersionHash = HashBufferVersions E (take (unat InNumDescriptors) DescriptorVersions);
          DescriptorHash = HashBufferDescriptors E (take (unat InNumDescriptors) InDescriptors)
      in VersionHash XOR DescriptorHash)"

definition AllocateDeduplicated ::
  "Build \<Rightarrow> 'r Engine \<Rightarrow> ('r, 'b) FD3D12ExplicitDescriptorCache \<Rightarrow> Globals \<Rightarrow>
     uint32 list \<Rightarrow> D3D12_CPU_DESCRIPTOR_HANDLE list \<Rightarrow> uint32 \<Rightarrow> D3D12_DESCRIPTOR_HEAP_TYPE \<Rightarrow>
     uint32 \<Rightarrow> error + (('r, 'b) FD3D12ExplicitDescriptorCache \<times> Globals \<times> int32)" where
  "AllocateDeduplicated B E C G DescriptorVersions InDescriptors InNumDescriptors T WorkerIndex =
     (if length (WorkerData C) \<le> unat WorkerIndex then Inl RangeCheckFailed
      else if length DescriptorVersions < unat InNumDescriptors
              \<or> length InDescriptors < unat InNumDescriptors then Inl BufferOverrun
      else
        (let w = unat WorkerIndex;
             Key = Fingerprint E DescriptorVersions InDescriptors InNumDescriptors;
             DescriptorTableBaseIndex =
               (case MapOf T (WorkerData C ! w) Key of None \<Rightarrow> INDEX_NONE | Some v \<Rightarrow> v);
             C1 = SetTableBaseIndex T w Key DescriptorTableBaseIndex C
         in case
              (if DescriptorTableBaseIndex \<noteq> INDEX_NONE then
                 (if EXPLICIT_DESCRIPTOR_CACHE_FULL_COMPARE B then
                    (case CompareDescriptors (HeapOf T C1) DescriptorTableBaseIndex InDescriptors
                            InNumDescriptors of
                       Inl e \<Rightarrow> Inl e
                     | Inr Equal \<Rightarrow>
                         Inr (Equal, if Equal then G
                                     else G\<lparr>ErrorLog := ErrorLog G @ [HashCollisionEnsure]\<rparr>))
                  else Inr (True, G))
               else Inr (False, G)) of
              Inl e \<Rightarrow> Inl e
            | Inr (Hit, G1) \<Rightarrow>
                if Hit then Inr (C1, G1, DescriptorTableBaseIndex)
                else
                  (case
                     (if bExhaustiveSamplerDeduplication (HeapOf T C1)
                         \<and> T = D3D12_DESCRIPTOR_HEAP_TYPE_SAMPLER \<and> 1 < length (WorkerData C1)
                      then SearchLoop (HeapOf T C1) InDescriptors InNumDescriptors
                             (NumWrittenSamplerDescriptors (HeapOf T C1)) 0
                      else Inr INDEX_NONE) of
                     Inl e \<Rightarrow> Inl e
                   | Inr FoundIndex \<Rightarrow>
                       if FoundIndex \<noteq> INDEX_NONE
                       then Inr (SetTableBaseIndex T w Key FoundIndex C1, G1, FoundIndex)
                       else
                         (case Cache_Allocate B E C1 G1 InDescriptors InNumDescriptors T WorkerIndex of
                            Inl e \<Rightarrow> Inl e
                          | Inr (C2, G2, r) \<Rightarrow> Inr (SetTableBaseIndex T w Key r C2, G2, r)))))"

text \<open>
  Calls on one cache, in the order in which they take effect. The run yields the values
  the calls returned and the state it ends in; it ends at a call that does not return.
\<close>

datatype CacheCall =
    CallAllocateDeduplicated "uint32 list" "D3D12_CPU_DESCRIPTOR_HANDLE list" uint32
      D3D12_DESCRIPTOR_HEAP_TYPE uint32
  | CallAllocate "D3D12_CPU_DESCRIPTOR_HANDLE list" uint32 D3D12_DESCRIPTOR_HEAP_TYPE uint32

fun RunCall ::
  "Build \<Rightarrow> 'r Engine \<Rightarrow> ('r, 'b) FD3D12ExplicitDescriptorCache \<Rightarrow> Globals \<Rightarrow> CacheCall \<Rightarrow>
     error + (('r, 'b) FD3D12ExplicitDescriptorCache \<times> Globals \<times> int32)" where
  "RunCall B E C G (CallAllocateDeduplicated Vs Ds n T w) = AllocateDeduplicated B E C G Vs Ds n T w"
| "RunCall B E C G (CallAllocate Ds n T w) = Cache_Allocate B E C G Ds n T w"

fun RunCalls ::
  "Build \<Rightarrow> 'r Engine \<Rightarrow> ('r, 'b) FD3D12ExplicitDescriptorCache \<Rightarrow> Globals \<Rightarrow> CacheCall list \<Rightarrow>
     int32 list \<times> (error + (('r, 'b) FD3D12ExplicitDescriptorCache \<times> Globals))" where
  "RunCalls B E C G [] = ([], Inr (C, G))"
| "RunCalls B E C G (c # cs) =
     (case RunCall B E C G c of
        Inl e \<Rightarrow> ([], Inl e)
      | Inr (C', G', r) \<Rightarrow>
          (let (rs, fin) = RunCalls B E C' G' cs in (r # rs, fin)))"

section \<open>Initial values and sample objects\<close>

text \<open>
  The initial values of the file's globals (lines 19, 26 and 27 of the source): sampler
  deduplication on, a view heap size of 250,000, no overflow reported yet.
\<close>

definition InitialGlobals :: Globals where
  "InitialGlobals =
     \<lparr>GD3D12ExplicitDeduplicateSamplers = 1,
      GD3D12ExplicitViewDescriptorHeapSize = 250000,
      GD3D12ExplicitViewDescriptorHeapOverflowReported = 0,
      ErrorLog = [],
      DeviceCopies = []\<rparr>"

text \<open>
  A heap of the given type and capacity on which nothing has been allocated yet, as
  \<open>Init\<close> leaves it when sampler deduplication is on and the full compare is compiled out.
\<close>

definition SampleHeap :: "D3D12_DESCRIPTOR_HEAP_TYPE \<Rightarrow> uint32 \<Rightarrow> FD3D12ExplicitDescriptorHeap" where
  "SampleHeap T N =
     \<lparr>HeapType = T,
      D3D12Heap = 1,
      HeapCacheEntry = \<lparr>Type = T, NumDescriptors = N, Heap = 1, LastUsedFrame = 0, LastUsedTime = 0\<rparr>,
      CPUBase = 4096,
      GPUBase = 8192,
      DescriptorSize = 32,
      MaxNumDescriptors = N,
      NumAllocatedDescriptors = 0,
      NumWrittenSamplerDescriptors = 0,
      bExhaustiveSamplerDeduplication = True,
      Descriptors = (if T = D3D12_DESCRIPTOR_HEAP_TYPE_SAMPLER then replicate (unat N) 0 else [])\<rparr>"

text \<open>
  The default build (full compare compiled out, bindless rendering supported) with the
  tier-1 limit of 1,000,000 descriptors that the D3D12 headers define, and a device that
  is at fence value 500 and second 60, creates heap 20 for views and heap 21 for
  samplers, and places heap \<open>h\<close> at address \<open>65536 * h\<close>.
\<close>

definition SampleBuild :: Build where
  "SampleBuild =
     \<lparr>EXPLICIT_DESCRIPTOR_CACHE_FULL_COMPARE = False,
      PLATFORM_SUPPORTS_BINDLESS_RENDERING = True,
      D3D12_MAX_SHADER_VISIBLE_DESCRIPTOR_HEAP_SIZE_TIER_1 = 1000000\<rparr>"

definition SampleDevice :: FD3D12Device where
  "SampleDevice =
     \<lparr>NextFenceToSignal = 500,
      Seconds = 60,
      CreateDescriptorHeap =
        (\<lambda>(T, N). Some (if T = D3D12_DESCRIPTOR_HEAP_TYPE_SAMPLER then 21 else 20)),
      CPUDescriptorHandleForHeapStart = (\<lambda>h. 65536 * of_nat h),
      GPUDescriptorHandleForHeapStart = (\<lambda>h. 65536 * of_nat h + 4096),
      DescriptorHandleIncrementSize = (\<lambda>T. 32),
      UninitializedMemory = (\<lambda>i. 3735928559)\<rparr>"

text \<open>
  A heap cache with one heap in use and two free entries: a view heap of 64 descriptors
  last used at fence value 100 and second 10, and a sampler heap of 2048 descriptors last
  used at fence value 450 and second 58.
\<close>

definition SampleHeapCache :: FD3D12ExplicitDescriptorHeapCache where
  "SampleHeapCache =
     \<lparr>FreeList =
        [\<lparr>Type = D3D12_DESCRIPTOR_HEAP_TYPE_CBV_SRV_UAV, NumDescriptors = 64, Heap = 11,
          LastUsedFrame = 100, LastUsedTime = 10\<rparr>,
         \<lparr>Type = D3D12_DESCRIPTOR_HEAP_TYPE_SAMPLER, NumDescriptors = 2048, Heap = 12,
          LastUsedFrame = 450, LastUsedTime = 58\<rparr>],
      NumAllocatedEntries = 1,
      DeferredDeleteQueue = [],
      ReleasedHeaps = [],
      CreatedHeaps = []\<rparr>"

text \<open>A heap object on which \<open>Init\<close> has not run.\<close>

definition UninitializedHeap :: FD3D12ExplicitDescriptorHeap where
  "UninitializedHeap =
     \<lparr>HeapType = D3D12_DESCRIPTOR_HEAP_TYPE_CBV_SRV_UAV,
      D3D12Heap = nullptr,
      HeapCacheEntry = \<lparr>Type = D3D12_DESCRIPTOR_HEAP_TYPE_CBV_SRV_UAV, NumDescriptors = 0,
                        Heap = nullptr, LastUsedFrame = 0, LastUsedTime = 0\<rparr>,
      CPUBase = 0,
      GPUBase = 0,
      DescriptorSize = 0,
      MaxNumDescriptors = 0,
      NumAllocatedDescriptors = 0,
      NumWrittenSamplerDescriptors = 0,
      bExhaustiveSamplerDeduplication = False,
      Descriptors = []\<rparr>"

text \<open>
  A bindless descriptor manager that reads a configuration as two bits (bit 0: resources
  are bindless, bit 1: samplers are bindless), a heap cache that holds nothing, an
  engine whose hashes are plain sums and whose workers have no reserved view range left,
  and a descriptor cache with two workers: once before \<open>Init\<close> and once with a view heap
  and a sampler heap of eight descriptors each.
\<close>

definition SampleBindlessManager :: "nat FD3D12BindlessDescriptorManager" where
  "SampleBindlessManager =
     \<lparr>AreResourcesBindless = (\<lambda>c. odd c), AreSamplersBindless = (\<lambda>c. odd (c div 2))\<rparr>"

definition EmptyHeapCache :: FD3D12ExplicitDescriptorHeapCache where
  "EmptyHeapCache =
     \<lparr>FreeList = [], NumAllocatedEntries = 0, DeferredDeleteQueue = [], ReleasedHeaps = [],
      CreatedHeaps = []\<rparr>"

definition SampleEngine :: "unit Engine" where
  "SampleEngine =
     \<lparr>HashBufferVersions = (\<lambda>vs. sum_list (map ucast vs)),
      HashBufferDescriptors = sum_list,
      ReservedAllocate = (\<lambda>r n. (r, INDEX_NONE))\<rparr>"

definition SampleWorker :: "unit FWorkerThreadData" where
  "SampleWorker =
     \<lparr>ViewDescriptorTableCache = Map.empty, SamplerDescriptorTableCache = Map.empty,
      ReservedViewDescriptors = ()\<rparr>"

definition SampleCache :: "(unit, nat) FD3D12ExplicitDescriptorCache" where
  "SampleCache =
     \<lparr>ViewHeap = UninitializedHeap,
      SamplerHeap = UninitializedHeap,
      WorkerData = [SampleWorker, SampleWorker],
      BindlessConfiguration = 0,
      bBindlessViews = False,
      bBindlessSamplers = False\<rparr>"

definition ReadyCache :: "(unit, nat) FD3D12ExplicitDescriptorCache" where
  "ReadyCache =
     SampleCache\<lparr>ViewHeap := SampleHeap D3D12_DESCRIPTOR_HEAP_TYPE_CBV_SRV_UAV 8,
                 SamplerHeap := SampleHeap D3D12_DESCRIPTOR_HEAP_TYPE_SAMPLER 8\<rparr>"

section \<open>Properties of FD3D12ExplicitDescriptorHeap::Allocate\<close>

subsection \<open>Words below the signed limit\<close>

lemma unat_INDEX_NONE: "unat INDEX_NONE = 4294967295"
  by (simp add: INDEX_NONE_def unsigned_minus_1_eq_mask mask_eq_exp_minus_1)

lemma INDEX_NONE_neq_small: "unat c < 2 ^ 31 \<Longrightarrow> (c :: 32 word) \<noteq> INDEX_NONE"
  using unat_INDEX_NONE by auto

lemma sint_small:
  assumes "unat (c :: 32 word) < 2 ^ 31"
  shows "sint c = int (unat c)"
proof -
  have "uint c < 2 ^ 31"
    using assms by (metis of_nat_less_numeral_power_cancel_iff of_nat_unat)
  moreover have "- (2 ^ 31) \<le> uint c"
    by (rule order_trans [of _ 0]) simp_all
  ultimately have "signed_take_bit 31 (uint c) = uint c"
    by (rule signed_take_bit_int_eq_self [rotated])
  moreover have "sint c = signed_take_bit 31 (uint c)"
    using sint_uint [of c] by simp
  ultimately show ?thesis by simp
qed

lemma unat_add_nowrap:
  "unat (a :: 32 word) + unat b < 2 ^ 32 \<Longrightarrow> unat (a + b) = unat a + unat b"
  using unat_add_lem [of a b] by simp

subsection \<open>Runs that do not wrap the cursor\<close>

text \<open>
  The three outcomes of a call whose count does not take the cursor past \<open>2 ^ 32\<close>: the
  range fits, a view heap overflows, a sampler heap overflows.
\<close>

lemma Allocate_cases:
  assumes nowrap: "unat (NumAllocatedDescriptors H) + unat n < 2 ^ 32"
  obtains
    (ok) "unat (NumAllocatedDescriptors H) + unat n \<le> unat (MaxNumDescriptors H)"
      "Allocate H G n =
         Inr (H\<lparr>NumAllocatedDescriptors := NumAllocatedDescriptors H + n\<rparr>, G, NumAllocatedDescriptors H)"
  | (view) G' where
      "unat (MaxNumDescriptors H) < unat (NumAllocatedDescriptors H) + unat n"
      "HeapType H \<noteq> D3D12_DESCRIPTOR_HEAP_TYPE_SAMPLER"
      "Allocate H G n =
         Inr (H\<lparr>NumAllocatedDescriptors := NumAllocatedDescriptors H + n\<rparr>, G', INDEX_NONE)"
  | (sampler)
      "unat (MaxNumDescriptors H) < unat (NumAllocatedDescriptors H) + unat n"
      "HeapType H = D3D12_DESCRIPTOR_HEAP_TYPE_SAMPLER"
      "Allocate H G n = Inl FatalSamplerHeapOverflow"
proof -
  have sum: "unat (NumAllocatedDescriptors H + n) = unat (NumAllocatedDescriptors H) + unat n"
    using nowrap by (rule unat_add_nowrap)
  show thesis
  proof (cases "unat (NumAllocatedDescriptors H) + unat n \<le> unat (MaxNumDescriptors H)")
    case True
    then have "\<not> MaxNumDescriptors H < NumAllocatedDescriptors H + n"
      by (simp add: word_less_nat_alt sum)
    then have "Allocate H G n =
         Inr (H\<lparr>NumAllocatedDescriptors := NumAllocatedDescriptors H + n\<rparr>, G, NumAllocatedDescriptors H)"
      by (simp add: Allocate_def Let_def)
    with True show thesis by (rule ok)
  next
    case False
    then have over: "MaxNumDescriptors H < NumAllocatedDescriptors H + n"
      by (simp add: word_less_nat_alt sum)
    show thesis
    proof (cases "HeapType H = D3D12_DESCRIPTOR_HEAP_TYPE_SAMPLER")
      case True
      with over have "Allocate H G n = Inl FatalSamplerHeapOverflow"
        by (simp add: Allocate_def Let_def)
      with False True show thesis by (intro sampler) auto
    next
      case nonsampler: False
      with over have "\<exists>G'. Allocate H G n =
         Inr (H\<lparr>NumAllocatedDescriptors := NumAllocatedDescriptors H + n\<rparr>, G', INDEX_NONE)"
        by (simp add: Allocate_def Let_def)
      then obtain G' where "Allocate H G n =
         Inr (H\<lparr>NumAllocatedDescriptors := NumAllocatedDescriptors H + n\<rparr>, G', INDEX_NONE)" ..
      with False nonsampler show thesis by (intro view) auto
    qed
  qed
qed

lemma TotalCount_Cons: "TotalCount (c # tr) = unat (Count c) + TotalCount tr"
  by (simp add: TotalCount_def)

lemma accepted_Cons:
  "accepted (c # tr) = (if Returned c \<noteq> INDEX_NONE then c # accepted tr else accepted tr)"
  by (simp add: accepted_def)


text \<open>One step of a run whose counts do not wrap the 32-bit cursor.\<close>

lemma AllocateSeq_step:
  assumes nowrap: "unat (NumAllocatedDescriptors H) + sum_list (map unat (n # ns)) < 2 ^ 31"
      and run: "AllocateSeq H G (n # ns) = (tr, fin)"
  obtains
    (fits) tr' where
      "unat (NumAllocatedDescriptors H) + unat n \<le> unat (MaxNumDescriptors H)"
      "tr = \<lparr>Count = n, Returned = NumAllocatedDescriptors H,
              CursorAfter = NumAllocatedDescriptors H + n\<rparr> # tr'"
      "AllocateSeq (H\<lparr>NumAllocatedDescriptors := NumAllocatedDescriptors H + n\<rparr>) G ns = (tr', fin)"
  | (view_overflow) G' tr' where
      "unat (MaxNumDescriptors H) < unat (NumAllocatedDescriptors H) + unat n"
      "HeapType H \<noteq> D3D12_DESCRIPTOR_HEAP_TYPE_SAMPLER"
      "tr = \<lparr>Count = n, Returned = INDEX_NONE,
              CursorAfter = NumAllocatedDescriptors H + n\<rparr> # tr'"
      "AllocateSeq (H\<lparr>NumAllocatedDescriptors := NumAllocatedDescriptors H + n\<rparr>) G' ns = (tr', fin)"
  | (sampler_overflow)
      "unat (MaxNumDescriptors H) < unat (NumAllocatedDescriptors H) + unat n"
      "HeapType H = D3D12_DESCRIPTOR_HEAP_TYPE_SAMPLER"
      "tr = []" "fin = Inl FatalSamplerHeapOverflow"
proof -
  let ?H' = "H\<lparr>NumAllocatedDescriptors := NumAllocatedDescriptors H + n\<rparr>"
  from nowrap have "unat (NumAllocatedDescriptors H) + unat n < 2 ^ 32" by simp
  then show thesis
  proof (cases rule: Allocate_cases [where G = G])
    case ok
    obtain tr' fin' where "AllocateSeq ?H' G ns = (tr', fin')" by force
    with ok run show thesis by (intro fits [of tr']) auto
  next
    case (view G')
    obtain tr' fin' where "AllocateSeq ?H' G' ns = (tr', fin')" by force
    with view run show thesis by (intro view_overflow [of tr' G']) auto
  next
    case sampler
    with run show thesis by (intro sampler_overflow) auto
  qed
qed

lemma nowrap_rest:
  assumes "unat (NumAllocatedDescriptors H) + sum_list (map unat (n # ns)) < 2 ^ 31"
  shows "unat (NumAllocatedDescriptors H + n) = unat (NumAllocatedDescriptors H) + unat n"
    and "unat (NumAllocatedDescriptors (H\<lparr>NumAllocatedDescriptors := NumAllocatedDescriptors H + n\<rparr>))
           + sum_list (map unat ns) < 2 ^ 31"
proof -
  from assms have "unat (NumAllocatedDescriptors H) + unat n < 2 ^ 32" by simp
  then show sum: "unat (NumAllocatedDescriptors H + n) = unat (NumAllocatedDescriptors H) + unat n"
    by (rule unat_add_nowrap)
  from assms show "unat (NumAllocatedDescriptors (H\<lparr>NumAllocatedDescriptors := NumAllocatedDescriptors H + n\<rparr>))
           + sum_list (map unat ns) < 2 ^ 31"
    by (simp add: sum)
qed

text \<open>Every accepted call of a run without wrap-around lies between the start cursor and the capacity.\<close>

lemma AllocateSeq_accepted_bounds:
  assumes "unat (NumAllocatedDescriptors H) + sum_list (map unat ns) < 2 ^ 31"
      and "AllocateSeq H G ns = (tr, fin)"
      and "c \<in> set (accepted tr)"
    shows "unat (NumAllocatedDescriptors H) \<le> unat (Returned c)
         \<and> unat (Returned c) + unat (Count c) \<le> unat (MaxNumDescriptors H)
         \<and> unat (Returned c) < 2 ^ 31"
  using assms
proof (induction ns arbitrary: H G tr fin)
  case Nil
  then show ?case by (simp add: accepted_def)
next
  case (Cons n ns)
  note rest = nowrap_rest [OF Cons.prems(1)]
  from Cons.prems(1,2) show ?case
  proof (cases rule: AllocateSeq_step)
    case (fits tr')
    from Cons.prems(3) fits(2)
    consider "c = \<lparr>Count = n, Returned = NumAllocatedDescriptors H,
                    CursorAfter = NumAllocatedDescriptors H + n\<rparr>"
      | "c \<in> set (accepted tr')"
      by (auto simp: accepted_Cons split: if_splits)
    then show ?thesis
    proof cases
      case 1
      with fits(1) Cons.prems(1) show ?thesis by simp
    next
      case 2
      from Cons.IH [OF rest(2) fits(3) 2] show ?thesis by (simp add: rest(1))
    qed
  next
    case (view_overflow G' tr')
    with Cons.prems(3) have "c \<in> set (accepted tr')" by (simp add: accepted_Cons)
    from Cons.IH [OF rest(2) view_overflow(4) this] show ?thesis by (simp add: rest(1))
  next
    case sampler_overflow
    with Cons.prems(3) show ?thesis by (simp add: accepted_def)
  qed
qed

text \<open>The accepted counts fit between the start cursor and the capacity.\<close>

lemma AllocateSeq_accepted_total:
  assumes "unat (NumAllocatedDescriptors H) + sum_list (map unat ns) < 2 ^ 31"
      and "AllocateSeq H G ns = (tr, fin)"
    shows "unat (NumAllocatedDescriptors H) + TotalCount (accepted tr)
             \<le> max (unat (NumAllocatedDescriptors H)) (unat (MaxNumDescriptors H))"
  using assms
proof (induction ns arbitrary: H G tr fin)
  case Nil
  then show ?case by (simp add: accepted_def TotalCount_def)
next
  case (Cons n ns)
  note rest = nowrap_rest [OF Cons.prems(1)]
  from Cons.prems(1,2) show ?case
  proof (cases rule: AllocateSeq_step)
    case (fits tr')
    from Cons.prems(1) have "NumAllocatedDescriptors H \<noteq> INDEX_NONE"
      by (intro INDEX_NONE_neq_small) simp
    with fits(2) have acc: "TotalCount (accepted tr) = unat n + TotalCount (accepted tr')"
      by (simp add: accepted_Cons TotalCount_Cons)
    from Cons.IH [OF rest(2) fits(3)] fits(1) show ?thesis
      by (simp add: acc rest(1))
  next
    case (view_overflow G' tr')
    then have acc: "TotalCount (accepted tr) = TotalCount (accepted tr')"
      by (simp add: accepted_Cons)
    from Cons.IH [OF rest(2) view_overflow(4)] view_overflow(1) show ?thesis
      by (simp add: acc rest(1))
  next
    case sampler_overflow
    then show ?thesis by (simp add: accepted_def TotalCount_def)
  qed
qed

lemma DescriptorRange_disjoint:
  assumes "unat (Returned a) + unat (Count a) \<le> unat (Returned b)"
      and "unat (Returned b) < 2 ^ 31"
    shows "DescriptorRange a \<inter> DescriptorRange b = {}"
proof -
  from assms have "unat (Returned a) < 2 ^ 31" by simp
  then have "sint (Returned a) = int (unat (Returned a))" by (rule sint_small)
  moreover from assms(2) have "sint (Returned b) = int (unat (Returned b))" by (rule sint_small)
  moreover from assms(1) have "uint (Returned a) + uint (Count a) \<le> uint (Returned b)"
    by (metis of_nat_add of_nat_le_iff of_nat_unat)
  ultimately show ?thesis by (auto simp: DescriptorRange_def)
qed

text \<open>The accepted calls of a run without wrap-around hand out pairwise disjoint ranges.\<close>

lemma AllocateSeq_disjoint:
  assumes "unat (NumAllocatedDescriptors H) + sum_list (map unat ns) < 2 ^ 31"
      and "AllocateSeq H G ns = (tr, fin)"
    shows "sorted_wrt (\<lambda>a b. DescriptorRange a \<inter> DescriptorRange b = {}) (accepted tr)"
  using assms
proof (induction ns arbitrary: H G tr fin)
  case Nil
  then show ?case by (simp add: accepted_def)
next
  case (Cons n ns)
  note rest = nowrap_rest [OF Cons.prems(1)]
  from Cons.prems(1,2) show ?case
  proof (cases rule: AllocateSeq_step)
    case (fits tr')
    let ?c = "\<lparr>Count = n, Returned = NumAllocatedDescriptors H,
                CursorAfter = NumAllocatedDescriptors H + n\<rparr>"
    from Cons.prems(1) have "NumAllocatedDescriptors H \<noteq> INDEX_NONE"
      by (intro INDEX_NONE_neq_small) simp
    with fits(2) have acc: "accepted tr = ?c # accepted tr'"
      by (simp add: accepted_Cons)
    have "DescriptorRange ?c \<inter> DescriptorRange b = {}" if "b \<in> set (accepted tr')" for b
    proof -
      from AllocateSeq_accepted_bounds [OF rest(2) fits(3) that]
      have "unat (Returned ?c) + unat (Count ?c) \<le> unat (Returned b)" "unat (Returned b) < 2 ^ 31"
        by (simp_all add: rest(1))
      then show ?thesis by (rule DescriptorRange_disjoint)
    qed
    with Cons.IH [OF rest(2) fits(3)] show ?thesis by (simp add: acc)
  next
    case (view_overflow G' tr')
    then have "accepted tr = accepted tr'" by (simp add: accepted_Cons)
    with Cons.IH [OF rest(2) view_overflow(4)] show ?thesis by simp
  next
    case sampler_overflow
    then show ?thesis by (simp add: accepted_def)
  qed
qed

text \<open>Below the \<open>int32\<close> limit the cursor, read as the signed value it is, never goes down.\<close>

lemma AllocateSeq_cursor_sorted:
  assumes "unat (NumAllocatedDescriptors H) + sum_list (map unat ns) < 2 ^ 31"
      and "AllocateSeq H G ns = (tr, fin)"
    shows "sorted (map sint (NumAllocatedDescriptors H # map CursorAfter tr))"
  using assms
proof (induction ns arbitrary: H G tr fin)
  case Nil
  then show ?case by simp
next
  case (Cons n ns)
  note rest = nowrap_rest [OF Cons.prems(1)]
  from Cons.prems(1) have "unat (NumAllocatedDescriptors H) < 2 ^ 31"
    and "unat (NumAllocatedDescriptors H + n) < 2 ^ 31"
    by (simp_all add: rest(1))
  then have "sint (NumAllocatedDescriptors H) = int (unat (NumAllocatedDescriptors H))"
    and "sint (NumAllocatedDescriptors H + n) = int (unat (NumAllocatedDescriptors H + n))"
    by (simp_all only: sint_small)
  then have up: "sint (NumAllocatedDescriptors H) \<le> sint (NumAllocatedDescriptors H + n)"
    by (simp only: rest(1))
  have trans: "sorted (map sint (NumAllocatedDescriptors H # (NumAllocatedDescriptors H + n) # cs))"
    if "sorted (map sint ((NumAllocatedDescriptors H + n) # cs))" for cs
    using that up by auto
  from Cons.prems(1,2) show ?case
  proof (cases rule: AllocateSeq_step)
    case (fits tr')
    from Cons.IH [OF rest(2) fits(3)] have "sorted (map sint ((NumAllocatedDescriptors H + n) # map CursorAfter tr'))"
      by simp
    from trans [OF this] fits(2) show ?thesis by simp
  next
    case (view_overflow G' tr')
    from Cons.IH [OF rest(2) view_overflow(4)] have "sorted (map sint ((NumAllocatedDescriptors H + n) # map CursorAfter tr'))"
      by simp
    from trans [OF this] view_overflow(3) show ?thesis by simp
  next
    case sampler_overflow
    then show ?thesis by simp
  qed
qed

text \<open>A call that would take the accepted total past the capacity fails.\<close>

lemma AllocateSeq_overflow_fails:
  assumes "unat (NumAllocatedDescriptors H) + sum_list (map unat ns) < 2 ^ 31"
      and "AllocateSeq H G ns = (tr, fin)"
      and "k < length tr"
      and "unat (MaxNumDescriptors H)
             < unat (NumAllocatedDescriptors H) + TotalCount (accepted (take k tr)) + unat (Count (tr ! k))"
    shows "Returned (tr ! k) = INDEX_NONE"
  using assms
proof (induction ns arbitrary: H G tr fin k)
  case Nil
  then show ?case by simp
next
  case (Cons n ns)
  note rest = nowrap_rest [OF Cons.prems(1)]
  from Cons.prems(1,2) show ?case
  proof (cases rule: AllocateSeq_step)
    case (fits tr')
    show ?thesis
    proof (cases k)
      case 0
      with Cons.prems(4) fits(1,2) show ?thesis by (simp add: accepted_def TotalCount_def)
    next
      case (Suc k')
      from Cons.prems(1) have "NumAllocatedDescriptors H \<noteq> INDEX_NONE"
        by (intro INDEX_NONE_neq_small) simp
      with Cons.prems(3,4) fits(2) Suc
      have "k' < length tr'"
        and "unat (MaxNumDescriptors H)
               < unat (NumAllocatedDescriptors H + n) + TotalCount (accepted (take k' tr')) + unat (Count (tr' ! k'))"
        by (simp_all add: accepted_Cons TotalCount_Cons rest(1))
      with Cons.IH [OF rest(2) fits(3), of k'] fits(2) Suc show ?thesis by simp
    qed
  next
    case (view_overflow G' tr')
    show ?thesis
    proof (cases k)
      case 0
      with view_overflow(3) show ?thesis by simp
    next
      case (Suc k')
      with Cons.prems(3,4) view_overflow(3)
      have "k' < length tr'"
        and "unat (MaxNumDescriptors H)
               < unat (NumAllocatedDescriptors H + n) + TotalCount (accepted (take k' tr')) + unat (Count (tr' ! k'))"
        by (simp_all add: accepted_Cons TotalCount_Cons rest(1))
      with Cons.IH [OF rest(2) view_overflow(4), of k'] view_overflow(3) Suc show ?thesis by simp
    qed
  next
    case sampler_overflow
    with Cons.prems(3) show ?thesis by simp
  qed
qed

text \<open>
  A run is cut short only by the fatal overflow of a sampler heap; every call before it
  was accepted, and the call that did not return would have passed the capacity.
\<close>

lemma AllocateSeq_cut_short:
  assumes "unat (NumAllocatedDescriptors H) + sum_list (map unat ns) < 2 ^ 31"
      and "AllocateSeq H G ns = (tr, fin)"
      and "length tr < length ns"
    shows "HeapType H = D3D12_DESCRIPTOR_HEAP_TYPE_SAMPLER \<and> fin = Inl FatalSamplerHeapOverflow
         \<and> unat (MaxNumDescriptors H)
             < unat (NumAllocatedDescriptors H) + TotalCount (accepted tr) + unat (ns ! length tr)"
  using assms
proof (induction ns arbitrary: H G tr fin)
  case Nil
  then show ?case by simp
next
  case (Cons n ns)
  note rest = nowrap_rest [OF Cons.prems(1)]
  from Cons.prems(1,2) show ?case
  proof (cases rule: AllocateSeq_step)
    case (fits tr')
    from Cons.prems(1) have "NumAllocatedDescriptors H \<noteq> INDEX_NONE"
      by (intro INDEX_NONE_neq_small) simp
    then have acc: "TotalCount (accepted (\<lparr>Count = n, Returned = NumAllocatedDescriptors H,
        CursorAfter = NumAllocatedDescriptors H + n\<rparr> # tr')) = unat n + TotalCount (accepted tr')"
      by (simp add: accepted_Cons TotalCount_Cons)
    from Cons.prems(3) fits(2) have "length tr' < length ns" by simp
    from Cons.IH [OF rest(2) fits(3) this] fits(2) show ?thesis
      by (simp add: acc rest(1))
  next
    case (view_overflow G' tr')
    from Cons.prems(3) view_overflow(3) have "length tr' < length ns" by simp
    from Cons.IH [OF rest(2) view_overflow(4) this] view_overflow(2) show ?thesis by simp
  next
    case sampler_overflow
    then show ?thesis by (simp add: accepted_def TotalCount_def)
  qed
qed

lemma AllocateSeq_length: "AllocateSeq H G ns = (tr, fin) \<Longrightarrow> length tr \<le> length ns"
proof (induction ns arbitrary: H G tr fin)
  case Nil
  then show ?case by simp
next
  case (Cons n ns)
  then show ?case
    by (fastforce split: sum.splits prod.splits)
qed

text \<open>Once the cursor is past the capacity, every call of a run without wrap-around fails.\<close>

lemma AllocateSeq_all_fail:
  assumes "unat (NumAllocatedDescriptors H) + sum_list (map unat ns) < 2 ^ 31"
      and "AllocateSeq H G ns = (tr, fin)"
      and "unat (MaxNumDescriptors H) < unat (NumAllocatedDescriptors H)"
      and "c \<in> set tr"
    shows "Returned c = INDEX_NONE"
  using assms
proof (induction ns arbitrary: H G tr fin)
  case Nil
  then show ?case by simp
next
  case (Cons n ns)
  note rest = nowrap_rest [OF Cons.prems(1)]
  from Cons.prems(1,2) show ?case
  proof (cases rule: AllocateSeq_step)
    case (fits tr')
    with Cons.prems(3) show ?thesis by simp
  next
    case (view_overflow G' tr')
    from Cons.prems(3) have past: "unat (MaxNumDescriptors H) < unat (NumAllocatedDescriptors H + n)"
      by (simp add: rest(1))
    from Cons.prems(4) view_overflow(3) consider "Returned c = INDEX_NONE" | "c \<in> set tr'"
      by auto
    then show ?thesis
    proof cases
      case 1
      then show ?thesis .
    next
      case 2
      from Cons.IH [OF rest(2) view_overflow(4) _ 2] past show ?thesis by simp
    qed
  next
    case sampler_overflow
    with Cons.prems(4) show ?thesis by simp
  qed
qed

text \<open>After a failed call of a run without wrap-around every later call fails.\<close>

lemma AllocateSeq_failure_persists:
  assumes "unat (NumAllocatedDescriptors H) + sum_list (map unat ns) < 2 ^ 31"
      and "AllocateSeq H G ns = (tr, fin)"
      and "i < j" and "j < length tr"
      and "Returned (tr ! i) = INDEX_NONE"
    shows "Returned (tr ! j) = INDEX_NONE"
  using assms
proof (induction ns arbitrary: H G tr fin i j)
  case Nil
  then show ?case by simp
next
  case (Cons n ns)
  note rest = nowrap_rest [OF Cons.prems(1)]
  from Cons.prems(3) obtain j' where j: "j = Suc j'" by (cases j) auto
  from Cons.prems(1) have noneq: "NumAllocatedDescriptors H \<noteq> INDEX_NONE"
    by (intro INDEX_NONE_neq_small) simp
  from Cons.prems(1,2) show ?case
  proof (cases rule: AllocateSeq_step)
    case (fits tr')
    with Cons.prems(5) noneq obtain i' where i: "i = Suc i'" by (cases i) auto
    with Cons.prems(3,4,5) fits(2) j have "i' < j'" "j' < length tr'" "Returned (tr' ! i') = INDEX_NONE"
      by simp_all
    from Cons.IH [OF rest(2) fits(3) this] fits(2) j show ?thesis by simp
  next
    case (view_overflow G' tr')
    show ?thesis
    proof (cases i)
      case 0
      from view_overflow(1) have past: "unat (MaxNumDescriptors H) < unat (NumAllocatedDescriptors H + n)"
        by (simp add: rest(1))
      from Cons.prems(4) view_overflow(3) j have "tr' ! j' \<in> set tr'" by simp
      from AllocateSeq_all_fail [OF rest(2) view_overflow(4) _ this] past view_overflow(3) j
      show ?thesis by simp
    next
      case (Suc i')
      with Cons.prems(3,4,5) view_overflow(3) j
      have "i' < j'" "j' < length tr'" "Returned (tr' ! i') = INDEX_NONE"
        by simp_all
      from Cons.IH [OF rest(2) view_overflow(4) this] view_overflow(3) j show ?thesis by simp
    qed
  next
    case sampler_overflow
    with Cons.prems(4) show ?thesis by simp
  qed
qed

text \<open>
  Whatever a call returns, it has added its count to the cursor (in 32-bit arithmetic),
  and it leaves the rest of the heap alone.
\<close>

lemma Allocate_heap_after:
  assumes "Allocate H G n = Inr (H', G', r)"
  shows "H' = H\<lparr>NumAllocatedDescriptors := NumAllocatedDescriptors H + n\<rparr>"
  using assms by (auto simp: Allocate_def Let_def split: if_splits)

lemma AllocateSeq_cursor:
  assumes "AllocateSeq H G ns = (tr, fin)" and "k < length tr"
  shows "Count (tr ! k) = ns ! k
       \<and> CursorAfter (tr ! k) = NumAllocatedDescriptors H + sum_list (take (Suc k) ns)"
  using assms
proof (induction ns arbitrary: H G tr fin k)
  case Nil
  then show ?case by simp
next
  case (Cons n ns)
  show ?case
  proof (cases "Allocate H G n")
    case (Inl e)
    with Cons.prems show ?thesis by simp
  next
    case (Inr res)
    obtain H' G' r where res: "res = (H', G', r)" by (cases res)
    with Inr have "Allocate H G n = Inr (H', G', r)" by simp
    then have H': "H' = H\<lparr>NumAllocatedDescriptors := NumAllocatedDescriptors H + n\<rparr>"
      by (rule Allocate_heap_after)
    obtain tr' fin' where run: "AllocateSeq H' G' ns = (tr', fin')" by force
    with Inr res Cons.prems(1)
    have tr: "tr = \<lparr>Count = n, Returned = r, CursorAfter = NumAllocatedDescriptors H'\<rparr> # tr'"
      by auto
    show ?thesis
    proof (cases k)
      case 0
      with tr H' show ?thesis by simp
    next
      case (Suc k')
      with Cons.prems(2) tr have "k' < length tr'" by simp
      from Cons.IH [OF run this] tr Suc H' show ?thesis by (simp add: add.assoc)
    qed
  qed
qed


subsection \<open>The overflow report\<close>

lemma or_one_nonzero: "(x :: 32 word) OR 1 \<noteq> 0"
  by (simp add: or_eq_0_iff)

text \<open>What one call does to the overflow flag and to the error log.\<close>

lemma Allocate_report_cases:
  assumes "Allocate H G n = Inr (H', G', r)"
  shows "G' = G
       \<or> (GD3D12ExplicitViewDescriptorHeapOverflowReported G \<noteq> 0
            \<and> GD3D12ExplicitViewDescriptorHeapOverflowReported G' \<noteq> 0
            \<and> ErrorLog G' = ErrorLog G)
       \<or> (GD3D12ExplicitViewDescriptorHeapOverflowReported G = 0
            \<and> GD3D12ExplicitViewDescriptorHeapOverflowReported G' \<noteq> 0
            \<and> ErrorLog G' = ErrorLog G @ [ViewHeapOverflowError (MaxNumDescriptors H * 2)])"
  using assms by (auto simp: Allocate_def Let_def or_one_nonzero split: if_splits)

lemma AllocateSeq_reports_once:
  assumes "AllocateSeq H G ns = (tr, Inr (H', G'))"
  shows "(GD3D12ExplicitViewDescriptorHeapOverflowReported G \<noteq> 0 \<longrightarrow>
            GD3D12ExplicitViewDescriptorHeapOverflowReported G' \<noteq> 0 \<and> ErrorLog G' = ErrorLog G)
       \<and> (ErrorLog G' = ErrorLog G
            \<or> (GD3D12ExplicitViewDescriptorHeapOverflowReported G' \<noteq> 0
                \<and> ErrorLog G' = ErrorLog G @ [ViewHeapOverflowError (MaxNumDescriptors H * 2)]))"
  using assms
proof (induction ns arbitrary: H G tr)
  case Nil
  then show ?case by simp
next
  case (Cons n ns)
  from Cons.prems obtain H1 G1 r tr' where
    step: "Allocate H G n = Inr (H1, G1, r)" and run: "AllocateSeq H1 G1 ns = (tr', Inr (H', G'))"
    by (auto split: sum.splits prod.splits)
  from Allocate_heap_after [OF step] have "MaxNumDescriptors H1 = MaxNumDescriptors H"
    by simp
  with Cons.IH [OF run] Allocate_report_cases [OF step] show ?case
    by auto
qed

subsection \<open>The capacity invariant\<close>

text \<open>
  Claim C1, as amended. Take a heap whose cursor is 0 and a run of \<open>Allocate\<close> calls whose
  counts, accepted or not, total less than \<open>2 ^ 31\<close>, so that the 32-bit cursor cannot
  wrap. Then the counts of the calls that returned an offset total at most
  \<open>MaxNumDescriptors\<close>; a call that would take the accepted total past the capacity
  returns \<open>INDEX_NONE\<close>; the run is cut short only on a sampler heap, by such a call
  taking the fatal path; the ranges \<open>[offset, offset + n)\<close> of the accepted calls are
  pairwise disjoint and lie inside \<open>[0, MaxNumDescriptors)\<close>; and the cursor never goes
  down.
\<close>

theorem Allocate_capacity_invariant:
  assumes fresh: "NumAllocatedDescriptors H = 0"
      and nowrap: "sum_list (map unat ns) < 2 ^ 31"
      and run: "AllocateSeq H G ns = (tr, fin)"
    shows "TotalCount (accepted tr) \<le> unat (MaxNumDescriptors H)
         \<and> (\<forall>k < length tr.
               unat (MaxNumDescriptors H) < TotalCount (accepted (take k tr)) + unat (Count (tr ! k)) \<longrightarrow>
               Returned (tr ! k) = INDEX_NONE)
         \<and> (length tr < length ns \<longrightarrow>
               HeapType H = D3D12_DESCRIPTOR_HEAP_TYPE_SAMPLER \<and> fin = Inl FatalSamplerHeapOverflow
               \<and> unat (MaxNumDescriptors H) < TotalCount (accepted tr) + unat (ns ! length tr))
         \<and> (\<forall>i j. i < j \<and> j < length (accepted tr) \<longrightarrow>
               DescriptorRange (accepted tr ! i) \<inter> DescriptorRange (accepted tr ! j) = {})
         \<and> (\<forall>c \<in> set (accepted tr). DescriptorRange c \<subseteq> {0 ..< uint (MaxNumDescriptors H)})
         \<and> sorted (map sint (0 # map CursorAfter tr))"
proof -
  from fresh nowrap have start: "unat (NumAllocatedDescriptors H) + sum_list (map unat ns) < 2 ^ 31"
    by simp
  have total: "TotalCount (accepted tr) \<le> unat (MaxNumDescriptors H)"
    using AllocateSeq_accepted_total [OF start run] fresh by simp
  have fails: "\<forall>k < length tr.
      unat (MaxNumDescriptors H) < TotalCount (accepted (take k tr)) + unat (Count (tr ! k)) \<longrightarrow>
      Returned (tr ! k) = INDEX_NONE"
    using AllocateSeq_overflow_fails [OF start run] fresh by simp
  have cut: "length tr < length ns \<longrightarrow>
      HeapType H = D3D12_DESCRIPTOR_HEAP_TYPE_SAMPLER \<and> fin = Inl FatalSamplerHeapOverflow
      \<and> unat (MaxNumDescriptors H) < TotalCount (accepted tr) + unat (ns ! length tr)"
    using AllocateSeq_cut_short [OF start run] fresh by simp
  have disjoint: "\<forall>i j. i < j \<and> j < length (accepted tr) \<longrightarrow>
      DescriptorRange (accepted tr ! i) \<inter> DescriptorRange (accepted tr ! j) = {}"
    using AllocateSeq_disjoint [OF start run] by (simp add: sorted_wrt_iff_nth_less)
  have inside: "\<forall>c \<in> set (accepted tr). DescriptorRange c \<subseteq> {0 ..< uint (MaxNumDescriptors H)}"
  proof
    fix c assume "c \<in> set (accepted tr)"
    from AllocateSeq_accepted_bounds [OF start run this]
    have le: "unat (Returned c) + unat (Count c) \<le> unat (MaxNumDescriptors H)"
      and small: "unat (Returned c) < 2 ^ 31" by simp_all
    from small have "sint (Returned c) = int (unat (Returned c))" by (rule sint_small)
    moreover from le have "uint (Returned c) + uint (Count c) \<le> uint (MaxNumDescriptors H)"
      by (metis of_nat_add of_nat_le_iff of_nat_unat)
    ultimately show "DescriptorRange c \<subseteq> {0 ..< uint (MaxNumDescriptors H)}"
      by (auto simp: DescriptorRange_def)
  qed
  have cursor: "sorted (map sint (0 # map CursorAfter tr))"
    using AllocateSeq_cursor_sorted [OF start run] fresh by simp
  from total fails cut disjoint inside cursor show ?thesis by blast
qed

text \<open>
  On a view heap of capacity 4 the calls \<open>Allocate(2)\<close>, \<open>Allocate(1)\<close>, \<open>Allocate(3)\<close>,
  \<open>Allocate(1)\<close> return 0, 2, \<open>INDEX_NONE\<close>, \<open>INDEX_NONE\<close>.
\<close>

theorem Allocate_capacity_invariant_witness:
  "NumAllocatedDescriptors (SampleHeap D3D12_DESCRIPTOR_HEAP_TYPE_CBV_SRV_UAV 4) = 0
   \<and> sum_list (map unat [2, 1, 3, 1 :: uint32]) < 2 ^ 31
   \<and> map Returned (fst (AllocateSeq (SampleHeap D3D12_DESCRIPTOR_HEAP_TYPE_CBV_SRV_UAV 4)
                          InitialGlobals [2, 1, 3, 1])) = [0, 2, INDEX_NONE, INDEX_NONE]
   \<and> TotalCount (accepted (fst (AllocateSeq (SampleHeap D3D12_DESCRIPTOR_HEAP_TYPE_CBV_SRV_UAV 4)
                                  InitialGlobals [2, 1, 3, 1])))
        \<le> unat (MaxNumDescriptors (SampleHeap D3D12_DESCRIPTOR_HEAP_TYPE_CBV_SRV_UAV 4))"
proof -
  let ?H = "SampleHeap D3D12_DESCRIPTOR_HEAP_TYPE_CBV_SRV_UAV 4"
  have fresh: "NumAllocatedDescriptors ?H = 0" by (simp add: SampleHeap_def)
  have nowrap: "sum_list (map unat [2, 1, 3, 1 :: uint32]) < 2 ^ 31" by simp
  have run: "AllocateSeq ?H InitialGlobals [2, 1, 3, 1] =
      (fst (AllocateSeq ?H InitialGlobals [2, 1, 3, 1]), snd (AllocateSeq ?H InitialGlobals [2, 1, 3, 1]))"
    by simp
  have results: "map Returned (fst (AllocateSeq ?H InitialGlobals [2, 1, 3, 1])) = [0, 2, INDEX_NONE, INDEX_NONE]"
    by (simp add: SampleHeap_def InitialGlobals_def Allocate_def INDEX_NONE_def)
  from Allocate_capacity_invariant [OF fresh nowrap run] fresh nowrap results show ?thesis
    by blast
qed

text \<open>
  Without the bound the claim fails: on a view heap of capacity 4, \<open>Allocate(4)\<close> and then
  \<open>Allocate(4294967292)\<close> both return an offset, the accepted counts total \<open>2 ^ 32\<close> and
  the cursor goes from 4 back to 0. And on a sampler heap an overflowing call does not
  return \<open>INDEX_NONE\<close>: it ends on the fatal path.
\<close>

theorem Allocate_capacity_counterexample:
  "\<not> TotalCount (accepted (fst (AllocateSeq (SampleHeap D3D12_DESCRIPTOR_HEAP_TYPE_CBV_SRV_UAV 4)
                                   InitialGlobals [4, 4294967292])))
        \<le> unat (MaxNumDescriptors (SampleHeap D3D12_DESCRIPTOR_HEAP_TYPE_CBV_SRV_UAV 4))
   \<and> map CursorAfter (fst (AllocateSeq (SampleHeap D3D12_DESCRIPTOR_HEAP_TYPE_CBV_SRV_UAV 4)
                               InitialGlobals [4, 4294967292])) = [4, 0]
   \<and> Allocate (SampleHeap D3D12_DESCRIPTOR_HEAP_TYPE_SAMPLER 4) InitialGlobals 5
        = Inl FatalSamplerHeapOverflow"
  by (simp add: SampleHeap_def InitialGlobals_def Allocate_def INDEX_NONE_def accepted_def
      TotalCount_def)


subsection \<open>Failure is not undone\<close>

lemma AllocateSeq_failed_past:
  assumes "unat (NumAllocatedDescriptors H) + sum_list (map unat ns) < 2 ^ 31"
      and "AllocateSeq H G ns = (tr, fin)"
      and "i < length tr"
      and "Returned (tr ! i) = INDEX_NONE"
    shows "unat (MaxNumDescriptors H) < unat (CursorAfter (tr ! i))"
  using assms
proof (induction ns arbitrary: H G tr fin i)
  case Nil
  then show ?case by simp
next
  case (Cons n ns)
  note rest = nowrap_rest [OF Cons.prems(1)]
  from Cons.prems(1) have noneq: "NumAllocatedDescriptors H \<noteq> INDEX_NONE"
    by (intro INDEX_NONE_neq_small) simp
  from Cons.prems(1,2) show ?case
  proof (cases rule: AllocateSeq_step)
    case (fits tr')
    with Cons.prems(4) noneq obtain i' where i: "i = Suc i'" by (cases i) auto
    with Cons.prems(3,4) fits(2) have "i' < length tr'" "Returned (tr' ! i') = INDEX_NONE"
      by simp_all
    from Cons.IH [OF rest(2) fits(3) this] fits(2) i show ?thesis by simp
  next
    case (view_overflow G' tr')
    show ?thesis
    proof (cases i)
      case 0
      with view_overflow(1,3) show ?thesis by (simp add: rest(1))
    next
      case (Suc i')
      with Cons.prems(3,4) view_overflow(3) have "i' < length tr'" "Returned (tr' ! i') = INDEX_NONE"
        by simp_all
      from Cons.IH [OF rest(2) view_overflow(4) this] view_overflow(3) Suc show ?thesis by simp
    qed
  next
    case sampler_overflow
    with Cons.prems(3) show ?thesis by simp
  qed
qed

text \<open>
  Claim C10, as amended. In a run of \<open>Allocate\<close> calls on one heap whose counts total
  less than \<open>2 ^ 31\<close> past the starting cursor (so the 32-bit cursor does not wrap), once
  a call has returned \<open>INDEX_NONE\<close> every later call returns \<open>INDEX_NONE\<close> too, whatever
  its count: the failed call has added its count to the cursor like every call before it,
  and has left the cursor past the capacity.
\<close>

theorem Allocate_failure_sticks:
  assumes nowrap: "unat (NumAllocatedDescriptors H) + sum_list (map unat ns) < 2 ^ 31"
      and run: "AllocateSeq H G ns = (tr, fin)"
      and later: "i < j" "j < length tr"
      and failed: "Returned (tr ! i) = INDEX_NONE"
    shows "Returned (tr ! j) = INDEX_NONE
         \<and> CursorAfter (tr ! i) = NumAllocatedDescriptors H + sum_list (take (Suc i) ns)
         \<and> unat (MaxNumDescriptors H) < unat (CursorAfter (tr ! i))"
proof -
  from later have i: "i < length tr" by simp
  have "Returned (tr ! j) = INDEX_NONE"
    using nowrap run later failed by (rule AllocateSeq_failure_persists)
  moreover have cur: "CursorAfter (tr ! i) = NumAllocatedDescriptors H + sum_list (take (Suc i) ns)"
    using AllocateSeq_cursor [OF run i] by simp
  moreover have "unat (MaxNumDescriptors H) < unat (CursorAfter (tr ! i))"
    using nowrap run i failed by (rule AllocateSeq_failed_past)
  ultimately show ?thesis by simp
qed

text \<open>
  On a view heap of capacity 4, after \<open>Allocate(2)\<close> has returned 0 and \<open>Allocate(3)\<close> has
  failed and left the cursor at 5, \<open>Allocate(1)\<close> fails although one descriptor would
  have fitted behind the first two.
\<close>

theorem Allocate_failure_sticks_witness:
  "unat (NumAllocatedDescriptors (SampleHeap D3D12_DESCRIPTOR_HEAP_TYPE_CBV_SRV_UAV 4))
      + sum_list (map unat [2, 3, 1 :: uint32]) < 2 ^ 31
   \<and> (1 :: nat) < 2
   \<and> 2 < length (fst (AllocateSeq (SampleHeap D3D12_DESCRIPTOR_HEAP_TYPE_CBV_SRV_UAV 4)
                         InitialGlobals [2, 3, 1]))
   \<and> Returned (fst (AllocateSeq (SampleHeap D3D12_DESCRIPTOR_HEAP_TYPE_CBV_SRV_UAV 4)
                         InitialGlobals [2, 3, 1]) ! 1) = INDEX_NONE
   \<and> Returned (fst (AllocateSeq (SampleHeap D3D12_DESCRIPTOR_HEAP_TYPE_CBV_SRV_UAV 4)
                         InitialGlobals [2, 3, 1]) ! 2) = INDEX_NONE
   \<and> Count (fst (AllocateSeq (SampleHeap D3D12_DESCRIPTOR_HEAP_TYPE_CBV_SRV_UAV 4)
                         InitialGlobals [2, 3, 1]) ! 2) = 1
   \<and> CursorAfter (fst (AllocateSeq (SampleHeap D3D12_DESCRIPTOR_HEAP_TYPE_CBV_SRV_UAV 4)
                         InitialGlobals [2, 3, 1]) ! 1) = 5"
proof -
  let ?H = "SampleHeap D3D12_DESCRIPTOR_HEAP_TYPE_CBV_SRV_UAV 4"
  let ?tr = "fst (AllocateSeq ?H InitialGlobals [2, 3, 1])"
  have nowrap: "unat (NumAllocatedDescriptors ?H) + sum_list (map unat [2, 3, 1 :: uint32]) < 2 ^ 31"
    by (simp add: SampleHeap_def)
  have run: "AllocateSeq ?H InitialGlobals [2, 3, 1] = (?tr, snd (AllocateSeq ?H InitialGlobals [2, 3, 1]))"
    by simp
  have order: "(1 :: nat) < 2" by simp
  have len: "2 < length ?tr"
    by (simp add: SampleHeap_def InitialGlobals_def Allocate_def INDEX_NONE_def)
  have failed: "Returned (?tr ! 1) = INDEX_NONE"
    by (simp add: SampleHeap_def InitialGlobals_def Allocate_def INDEX_NONE_def)
  have count: "Count (?tr ! 2) = 1"
    by (simp add: SampleHeap_def InitialGlobals_def Allocate_def INDEX_NONE_def)
  have start: "NumAllocatedDescriptors ?H = 0" by (simp add: SampleHeap_def)
  from Allocate_failure_sticks [OF nowrap run order len failed]
  have "Returned (?tr ! 2) = INDEX_NONE"
    and "CursorAfter (?tr ! 1) = NumAllocatedDescriptors ?H + sum_list (take (Suc 1) [2, 3, 1])"
    by simp_all
  with start have "Returned (?tr ! 2) = INDEX_NONE" and "CursorAfter (?tr ! 1) = 5"
    by simp_all
  with nowrap order len failed count show ?thesis by blast
qed

text \<open>
  Without the bound the claim fails: on a view heap of capacity 4, \<open>Allocate(5)\<close> returns
  \<open>INDEX_NONE\<close>, then \<open>Allocate(4294967291)\<close> wraps the cursor to 0 and returns 5, and
  \<open>Allocate(1)\<close> returns 0.
\<close>

theorem Allocate_failure_sticks_counterexample:
  "map Count (fst (AllocateSeq (SampleHeap D3D12_DESCRIPTOR_HEAP_TYPE_CBV_SRV_UAV 4)
                      InitialGlobals [5, 4294967291, 1])) = [5, 4294967291, 1]
   \<and> map Returned (fst (AllocateSeq (SampleHeap D3D12_DESCRIPTOR_HEAP_TYPE_CBV_SRV_UAV 4)
                      InitialGlobals [5, 4294967291, 1])) = [INDEX_NONE, 5, 0]
   \<and> (5 :: int32) \<noteq> INDEX_NONE \<and> (0 :: int32) \<noteq> INDEX_NONE"
  by (simp add: SampleHeap_def InitialGlobals_def Allocate_def INDEX_NONE_def)

subsection \<open>What an overflow does\<close>

text \<open>
  Claim C5, as amended. When the test of line 250 finds an overflow, a sampler heap ends
  on the fatal path, and any other heap returns \<open>INDEX_NONE\<close> with the cursor advanced.
  The error is logged exactly when \<open>GD3D12ExplicitViewDescriptorHeapSize\<close> is at most the
  heap's \<open>MaxNumDescriptors\<close> and the process-wide flag
  \<open>GD3D12ExplicitViewDescriptorHeapOverflowReported\<close> is still 0, and the call that tests
  the flag sets it. So a run of calls on any heap logs nothing when it starts with the
  flag set, and otherwise logs at most one line and then leaves the flag set: the error
  is reported at most once for all heaps that share the flag.
\<close>

theorem Allocate_overflow_outcome:
  "(MaxNumDescriptors H < NumAllocatedDescriptors H + n \<longrightarrow>
      (HeapType H = D3D12_DESCRIPTOR_HEAP_TYPE_SAMPLER \<longrightarrow>
         Allocate H G n = Inl FatalSamplerHeapOverflow)
    \<and> (HeapType H \<noteq> D3D12_DESCRIPTOR_HEAP_TYPE_SAMPLER \<longrightarrow>
         (\<exists>G'. Allocate H G n =
                  Inr (H\<lparr>NumAllocatedDescriptors := NumAllocatedDescriptors H + n\<rparr>, G', INDEX_NONE)
             \<and> ErrorLog G' = ErrorLog G @
                 (if GD3D12ExplicitViewDescriptorHeapSize G \<le> MaxNumDescriptors H
                     \<and> GD3D12ExplicitViewDescriptorHeapOverflowReported G = 0
                  then [ViewHeapOverflowError (MaxNumDescriptors H * 2)] else [])
             \<and> GD3D12ExplicitViewDescriptorHeapOverflowReported G' =
                 (if GD3D12ExplicitViewDescriptorHeapSize G \<le> MaxNumDescriptors H
                  then GD3D12ExplicitViewDescriptorHeapOverflowReported G OR 1
                  else GD3D12ExplicitViewDescriptorHeapOverflowReported G))))
   \<and> (\<forall>ns tr H' G'. AllocateSeq H G ns = (tr, Inr (H', G')) \<longrightarrow>
         (GD3D12ExplicitViewDescriptorHeapOverflowReported G \<noteq> 0 \<longrightarrow>
            GD3D12ExplicitViewDescriptorHeapOverflowReported G' \<noteq> 0 \<and> ErrorLog G' = ErrorLog G)
       \<and> (ErrorLog G' = ErrorLog G
            \<or> (GD3D12ExplicitViewDescriptorHeapOverflowReported G' \<noteq> 0
                \<and> ErrorLog G' = ErrorLog G @ [ViewHeapOverflowError (MaxNumDescriptors H * 2)])))"
proof (intro conjI impI allI)
  assume "MaxNumDescriptors H < NumAllocatedDescriptors H + n"
    and "HeapType H = D3D12_DESCRIPTOR_HEAP_TYPE_SAMPLER"
  then show "Allocate H G n = Inl FatalSamplerHeapOverflow"
    by (simp add: Allocate_def Let_def)
next
  assume "MaxNumDescriptors H < NumAllocatedDescriptors H + n"
    and "HeapType H \<noteq> D3D12_DESCRIPTOR_HEAP_TYPE_SAMPLER"
  then show "\<exists>G'. Allocate H G n =
                  Inr (H\<lparr>NumAllocatedDescriptors := NumAllocatedDescriptors H + n\<rparr>, G', INDEX_NONE)
             \<and> ErrorLog G' = ErrorLog G @
                 (if GD3D12ExplicitViewDescriptorHeapSize G \<le> MaxNumDescriptors H
                     \<and> GD3D12ExplicitViewDescriptorHeapOverflowReported G = 0
                  then [ViewHeapOverflowError (MaxNumDescriptors H * 2)] else [])
             \<and> GD3D12ExplicitViewDescriptorHeapOverflowReported G' =
                 (if GD3D12ExplicitViewDescriptorHeapSize G \<le> MaxNumDescriptors H
                  then GD3D12ExplicitViewDescriptorHeapOverflowReported G OR 1
                  else GD3D12ExplicitViewDescriptorHeapOverflowReported G)"
    by (simp add: Allocate_def Let_def)
next
  fix ns tr H' G'
  assume run: "AllocateSeq H G ns = (tr, Inr (H', G'))"
  {
    assume "GD3D12ExplicitViewDescriptorHeapOverflowReported G \<noteq> 0"
    with AllocateSeq_reports_once [OF run]
    show "GD3D12ExplicitViewDescriptorHeapOverflowReported G' \<noteq> 0" and "ErrorLog G' = ErrorLog G"
      by simp_all
  }
  from AllocateSeq_reports_once [OF run]
  show "ErrorLog G' = ErrorLog G
            \<or> (GD3D12ExplicitViewDescriptorHeapOverflowReported G' \<noteq> 0
                \<and> ErrorLog G' = ErrorLog G @ [ViewHeapOverflowError (MaxNumDescriptors H * 2)])"
    by simp
qed

text \<open>
  A view heap of 262,144 descriptors, which is not below the configured 250,000, logs its
  first overflow and sets the flag.
\<close>

theorem Allocate_overflow_outcome_witness:
  "MaxNumDescriptors (SampleHeap D3D12_DESCRIPTOR_HEAP_TYPE_CBV_SRV_UAV 262144)
     < NumAllocatedDescriptors (SampleHeap D3D12_DESCRIPTOR_HEAP_TYPE_CBV_SRV_UAV 262144) + 262145
   \<and> HeapType (SampleHeap D3D12_DESCRIPTOR_HEAP_TYPE_CBV_SRV_UAV 262144) \<noteq> D3D12_DESCRIPTOR_HEAP_TYPE_SAMPLER
   \<and> (\<exists>G'. Allocate (SampleHeap D3D12_DESCRIPTOR_HEAP_TYPE_CBV_SRV_UAV 262144) InitialGlobals 262145
             = Inr ((SampleHeap D3D12_DESCRIPTOR_HEAP_TYPE_CBV_SRV_UAV 262144)
                      \<lparr>NumAllocatedDescriptors := 262145\<rparr>, G', INDEX_NONE)
          \<and> ErrorLog G' = [ViewHeapOverflowError 524288]
          \<and> GD3D12ExplicitViewDescriptorHeapOverflowReported G' = 1)"
proof -
  let ?H = "SampleHeap D3D12_DESCRIPTOR_HEAP_TYPE_CBV_SRV_UAV 262144"
  have over: "MaxNumDescriptors ?H < NumAllocatedDescriptors ?H + 262145"
    by (simp add: SampleHeap_def)
  have view: "HeapType ?H \<noteq> D3D12_DESCRIPTOR_HEAP_TYPE_SAMPLER"
    by (simp add: SampleHeap_def)
  from Allocate_overflow_outcome [of ?H 262145 InitialGlobals] over view
  have "\<exists>G'. Allocate ?H InitialGlobals 262145 =
                  Inr (?H\<lparr>NumAllocatedDescriptors := NumAllocatedDescriptors ?H + 262145\<rparr>, G', INDEX_NONE)
             \<and> ErrorLog G' = ErrorLog InitialGlobals @
                 (if GD3D12ExplicitViewDescriptorHeapSize InitialGlobals \<le> MaxNumDescriptors ?H
                     \<and> GD3D12ExplicitViewDescriptorHeapOverflowReported InitialGlobals = 0
                  then [ViewHeapOverflowError (MaxNumDescriptors ?H * 2)] else [])
             \<and> GD3D12ExplicitViewDescriptorHeapOverflowReported G' =
                 (if GD3D12ExplicitViewDescriptorHeapSize InitialGlobals \<le> MaxNumDescriptors ?H
                  then GD3D12ExplicitViewDescriptorHeapOverflowReported InitialGlobals OR 1
                  else GD3D12ExplicitViewDescriptorHeapOverflowReported InitialGlobals)"
    by blast
  then have "\<exists>G'. Allocate ?H InitialGlobals 262145
             = Inr (?H\<lparr>NumAllocatedDescriptors := 262145\<rparr>, G', INDEX_NONE)
          \<and> ErrorLog G' = [ViewHeapOverflowError 524288]
          \<and> GD3D12ExplicitViewDescriptorHeapOverflowReported G' = 1"
    by (simp add: SampleHeap_def InitialGlobals_def)
  with over view show ?thesis by blast
qed

text \<open>
  The error is not reported once per heap: a view heap of capacity 4 overflows without a
  report and without touching the flag, and a heap of 262,144 descriptors that overflows
  when the flag is already set (another heap has reported) logs nothing.
\<close>

theorem Allocate_overflow_report_counterexample:
  "Allocate (SampleHeap D3D12_DESCRIPTOR_HEAP_TYPE_CBV_SRV_UAV 4) InitialGlobals 5
     = Inr ((SampleHeap D3D12_DESCRIPTOR_HEAP_TYPE_CBV_SRV_UAV 4)\<lparr>NumAllocatedDescriptors := 5\<rparr>,
            InitialGlobals, INDEX_NONE)
   \<and> ErrorLog InitialGlobals = []
   \<and> Allocate (SampleHeap D3D12_DESCRIPTOR_HEAP_TYPE_CBV_SRV_UAV 262144)
        (InitialGlobals\<lparr>GD3D12ExplicitViewDescriptorHeapOverflowReported := 1,
                         ErrorLog := [ViewHeapOverflowError 524288]\<rparr>) 262145
     = Inr ((SampleHeap D3D12_DESCRIPTOR_HEAP_TYPE_CBV_SRV_UAV 262144)\<lparr>NumAllocatedDescriptors := 262145\<rparr>,
            InitialGlobals\<lparr>GD3D12ExplicitViewDescriptorHeapOverflowReported := 1,
                         ErrorLog := [ViewHeapOverflowError 524288]\<rparr>, INDEX_NONE)"
  by (simp add: SampleHeap_def InitialGlobals_def Allocate_def INDEX_NONE_def)

section \<open>Properties of FD3D12ExplicitDescriptorHeapCache\<close>

subsection \<open>Rounding and clamping\<close>

lemma BitLength_upper: "n < 2 ^ BitLength n"
proof (induction n rule: BitLength.induct)
  case (1 n)
  show ?case
  proof (cases "n = 0")
    case True
    then show ?thesis by (simp add: BitLength.simps)
  next
    case False
    with 1 have "n div 2 < 2 ^ BitLength (n div 2)" by simp
    then have "n < 2 * 2 ^ BitLength (n div 2)" by linarith
    with False show ?thesis by (simp add: BitLength.simps [of n])
  qed
qed

lemma BitLength_lower: "n \<noteq> 0 \<Longrightarrow> 2 ^ (BitLength n - 1) \<le> n"
proof (induction n rule: BitLength.induct)
  case (1 n)
  show ?case
  proof (cases "n div 2 = 0")
    case True
    with "1.prems" have "n = 1" by linarith
    then show ?thesis by (simp add: BitLength.simps)
  next
    case False
    with 1 have "2 ^ (BitLength (n div 2) - 1) \<le> n div 2" by simp
    moreover from False have "0 < BitLength (n div 2)" by (simp add: BitLength.simps [of "n div 2"])
    ultimately have "2 ^ BitLength (n div 2) \<le> 2 * (n div 2)"
      by (cases "BitLength (n div 2)") simp_all
    then have "2 ^ BitLength (n div 2) \<le> n" by linarith
    with "1.prems" show ?thesis by (simp add: BitLength.simps [of n])
  qed
qed

lemma RoundUpToPowerOfTwo_least:
  assumes "unat X \<le> 2 ^ 31"
  shows "\<exists>k. unat (RoundUpToPowerOfTwo X) = 2 ^ k \<and> unat X \<le> 2 ^ k
             \<and> (0 < k \<longrightarrow> 2 ^ (k - 1) < unat X)"
proof -
  let ?m = "unat X - 1"
  let ?k = "BitLength ?m"
  have k31: "?k \<le> 31"
  proof (cases "?m = 0")
    case True
    then show ?thesis by (simp add: BitLength.simps)
  next
    case False
    then have "(2 :: nat) ^ (?k - 1) \<le> ?m" by (rule BitLength_lower)
    also from assms False have "?m < 2 ^ 31" by simp
    finally have lt: "(2 :: nat) ^ (?k - 1) < 2 ^ 31" .
    have "?k - 1 < 31" by (rule power_less_imp_less_exp [OF _ lt]) simp
    then show ?thesis by simp
  qed
  then have "(2 :: nat) ^ ?k \<le> 2 ^ 31" by (intro power_increasing) simp_all
  then have "(2 :: nat) ^ ?k < 2 ^ 32" by simp
  moreover have "unat (of_nat (2 ^ ?k) :: 32 word) = 2 ^ ?k mod 2 ^ 32"
    using unat_of_nat [of "2 ^ ?k", where 'a = 32] by simp
  ultimately have val: "unat (RoundUpToPowerOfTwo X) = 2 ^ ?k"
    by (simp add: RoundUpToPowerOfTwo_def)
  have "?m < 2 ^ ?k" by (rule BitLength_upper)
  then have ge: "unat X \<le> 2 ^ ?k" by simp
  have least: "2 ^ (?k - 1) < unat X" if "0 < ?k"
  proof -
    from that have "?m \<noteq> 0" by (auto simp: BitLength.simps)
    then have "(2 :: nat) ^ (?k - 1) \<le> ?m" by (rule BitLength_lower)
    with \<open>?m \<noteq> 0\<close> show ?thesis by simp
  qed
  from val ge least show ?thesis by (intro exI [of _ ?k]) simp
qed

lemma AlignedNumDescriptors_min:
  "AlignedNumDescriptors B T N =
     min (RoundUpToPowerOfTwo N)
       (if T = D3D12_DESCRIPTOR_HEAP_TYPE_SAMPLER then D3D12_MAX_SHADER_VISIBLE_SAMPLER_HEAP_SIZE
        else D3D12_MAX_SHADER_VISIBLE_DESCRIPTOR_HEAP_SIZE_TIER_1 B)"
  by (simp add: AlignedNumDescriptors_def Clamp_def Let_def max_def)

subsection \<open>Swap-remove\<close>

lemma length_RemoveAtSwap: "length (RemoveAtSwap i xs) = length xs - 1"
  by (simp add: RemoveAtSwap_def)

lemma nth_RemoveAtSwap:
  assumes "j < length xs - 1"
  shows "RemoveAtSwap i xs ! j = (if j = i then last xs else xs ! j)"
  using assms by (simp add: RemoveAtSwap_def nth_butlast)

lemma mset_RemoveAtSwap:
  assumes "i < length xs"
  shows "mset (RemoveAtSwap i xs) = mset xs - {#xs ! i#}"
proof -
  from assms have ne: "xs \<noteq> []" by auto
  then have xs: "xs = butlast xs @ [last xs]" by simp
  show ?thesis
  proof (cases "i = length xs - 1")
    case True
    then have "xs[i := last xs] = xs" using ne by (simp add: last_conv_nth)
    moreover from True ne have "xs ! i = last xs" by (simp add: last_conv_nth)
    moreover have "mset (butlast xs) = mset xs - {#last xs#}"
      by (subst (2) xs) simp
    ultimately show ?thesis by (simp add: RemoveAtSwap_def)
  next
    case False
    with assms have i: "i < length (butlast xs)" by simp
    then have "xs[i := last xs] = (butlast xs)[i := last xs] @ [last xs]"
      by (subst xs) (simp add: list_update_append)
    then have "RemoveAtSwap i xs = (butlast xs)[i := last xs]"
      by (simp add: RemoveAtSwap_def)
    then have "mset (RemoveAtSwap i xs) = mset (butlast xs) - {#butlast xs ! i#} + {#last xs#}"
      using i by (simp add: mset_update)
    moreover from i have "butlast xs ! i = xs ! i" by (simp add: nth_butlast)
    moreover from i have "xs ! i \<in># mset (butlast xs)"
      by (metis nth_butlast nth_mem set_mset_mset)
    moreover have "mset xs = mset (butlast xs) + {#last xs#}"
      by (subst xs) simp
    ultimately show ?thesis by simp
  qed
qed

lemma take_RemoveAtSwap:
  assumes "i < length xs"
  shows "take i (RemoveAtSwap i xs) = take i xs"
  using assms by (simp add: RemoveAtSwap_def take_butlast)

subsection \<open>The free-list scan\<close>

lemma FindCompatible_Some:
  assumes "FindCompatible xs T N k = Some i"
  shows "k \<le> i \<and> i < length xs \<and> IsCompatible T N (xs ! i)
       \<and> (\<forall>j. k \<le> j \<and> j < i \<longrightarrow> \<not> IsCompatible T N (xs ! j))"
  using assms
proof (induction xs T N k rule: FindCompatible.induct)
  case (1 xs T N k)
  show ?case
  proof (cases "k < length xs \<and> \<not> IsCompatible T N (xs ! k)")
    case True
    with "1.prems" have "FindCompatible xs T N (k + 1) = Some i"
      by (simp add: FindCompatible.simps [of xs T N k])
    with "1.IH" True have ih: "k + 1 \<le> i \<and> i < length xs \<and> IsCompatible T N (xs ! i)
       \<and> (\<forall>j. k + 1 \<le> j \<and> j < i \<longrightarrow> \<not> IsCompatible T N (xs ! j))" by simp
    have "\<not> IsCompatible T N (xs ! j)" if "k \<le> j" "j < i" for j
      using that ih True by (cases "j = k") auto
    with ih show ?thesis by auto
  next
    case False
    with "1.prems" show ?thesis
      by (auto simp: FindCompatible.simps [of xs T N k] split: if_splits)
  qed
qed

lemma FindCompatible_None:
  "FindCompatible xs T N k = None \<longleftrightarrow> (\<forall>j. k \<le> j \<and> j < length xs \<longrightarrow> \<not> IsCompatible T N (xs ! j))"
proof (induction xs T N k rule: FindCompatible.induct)
  case (1 xs T N k)
  show ?case
  proof (cases "k < length xs \<and> \<not> IsCompatible T N (xs ! k)")
    case True
    then have "FindCompatible xs T N k = FindCompatible xs T N (k + 1)"
      by (simp add: FindCompatible.simps [of xs T N k])
    moreover have "(\<forall>j. k \<le> j \<and> j < length xs \<longrightarrow> \<not> IsCompatible T N (xs ! j))
        \<longleftrightarrow> (\<forall>j. k + 1 \<le> j \<and> j < length xs \<longrightarrow> \<not> IsCompatible T N (xs ! j))"
      using True by (metis Suc_eq_plus1 Suc_leI le_eq_less_or_eq Suc_leD)
    ultimately show ?thesis using "1.IH" True by simp
  next
    case False
    then show ?thesis
      by (auto simp: FindCompatible.simps [of xs T N k])
  qed
qed

lemma FindCompatible_None_set:
  "FindCompatible xs T N 0 = None \<longleftrightarrow> \<not> (\<exists>It \<in> set xs. IsCompatible T N It)"
proof
  assume none: "FindCompatible xs T N 0 = None"
  show "\<not> (\<exists>It \<in> set xs. IsCompatible T N It)"
  proof
    assume "\<exists>It \<in> set xs. IsCompatible T N It"
    then obtain j where "j < length xs" "IsCompatible T N (xs ! j)"
      by (auto simp: in_set_conv_nth)
    with none show False by (simp add: FindCompatible_None)
  qed
next
  assume "\<not> (\<exists>It \<in> set xs. IsCompatible T N It)"
  then have "\<not> IsCompatible T N (xs ! j)" if "j < length xs" for j
    using that nth_mem by blast
  then show "FindCompatible xs T N 0 = None" by (simp add: FindCompatible_None)
qed

subsection \<open>The purge of stale entries\<close>

lemma ReleaseStaleLoop_frame:
  "NumAllocatedEntries (ReleaseStaleLoop Dev F S i C) = NumAllocatedEntries C
   \<and> ReleasedHeaps (ReleaseStaleLoop Dev F S i C) = ReleasedHeaps C
   \<and> CreatedHeaps (ReleaseStaleLoop Dev F S i C) = CreatedHeaps C"
proof (induction Dev F S i C rule: ReleaseStaleLoop.induct)
  case (1 Dev F S i C)
  then show ?case
    by (simp add: ReleaseStaleLoop.simps [of Dev F S i C] Let_def)
qed

lemma ReleaseStaleLoop_mset:
  assumes "i \<le> length (FreeList C)"
  shows "mset (FreeList (ReleaseStaleLoop Dev F S i C))
           = mset (take i (FreeList C))
             + filter_mset (\<lambda>It. \<not> IsStale Dev F S It) (mset (drop i (FreeList C)))
       \<and> mset (DeferredDeleteQueue (ReleaseStaleLoop Dev F S i C))
           = mset (DeferredDeleteQueue C)
             + image_mset Heap (filter_mset (IsStale Dev F S) (mset (drop i (FreeList C))))"
  using assms
proof (induction Dev F S i C rule: ReleaseStaleLoop.induct)
  case (1 Dev F S i C)
  let ?xs = "FreeList C"
  show ?case
  proof (cases "i < length ?xs")
    case False
    then have "ReleaseStaleLoop Dev F S i C = C"
      by (subst ReleaseStaleLoop.simps) simp
    with False "1.prems" show ?thesis by simp
  next
    case True
    then have split: "drop i ?xs = ?xs ! i # drop (Suc i) ?xs"
      by (simp add: Cons_nth_drop_Suc)
    show ?thesis
    proof (cases "IsStale Dev F S (?xs ! i)")
      case stale: True
      let ?C' = "C\<lparr>DeferredDeleteQueue := DeferredDeleteQueue C @ [Heap (?xs ! i)],
                    FreeList := RemoveAtSwap i ?xs\<rparr>"
      have step: "ReleaseStaleLoop Dev F S i C = ReleaseStaleLoop Dev F S i ?C'"
        using True stale by (simp add: ReleaseStaleLoop.simps [of Dev F S i C] Let_def)
      have len: "i \<le> length (FreeList ?C')" using True by (simp add: length_RemoveAtSwap)
      have tk: "take i (RemoveAtSwap i ?xs) = take i ?xs" using True by (rule take_RemoveAtSwap)
      have A: "mset (take i ?xs) + mset (drop i (RemoveAtSwap i ?xs)) = mset (RemoveAtSwap i ?xs)"
        using take_RemoveAtSwap [OF True] by (metis append_take_drop_id mset_append)
      have B: "mset ?xs = add_mset (?xs ! i) (mset (take i ?xs) + mset (drop (Suc i) ?xs))"
        by (metis append_take_drop_id mset_append split mset.simps(2) union_mset_add_mset_right)
      have "mset (RemoveAtSwap i ?xs) = mset ?xs - {#?xs ! i#}" using True by (rule mset_RemoveAtSwap)
      with B have "mset (RemoveAtSwap i ?xs) = mset (take i ?xs) + mset (drop (Suc i) ?xs)" by simp
      with A have dr: "mset (drop i (RemoveAtSwap i ?xs)) = mset (drop (Suc i) ?xs)" by simp
      from "1.IH"(1) [OF True refl stale len] show ?thesis
        by (simp add: step tk dr split stale)
    next
      case fresh: False
      have step: "ReleaseStaleLoop Dev F S i C = ReleaseStaleLoop Dev F S (i + 1) C"
        using True fresh by (simp add: ReleaseStaleLoop.simps [of Dev F S i C] Let_def)
      from True have len: "i + 1 \<le> length ?xs" by simp
      have tk: "mset (take (Suc i) ?xs) = add_mset (?xs ! i) (mset (take i ?xs))"
        using True by (simp add: take_Suc_conv_app_nth)
      from "1.IH"(2) [OF True refl fresh len] show ?thesis
        by (simp add: step tk split fresh)
    qed
  qed
qed

lemma ReleaseStaleLoop_queue_grows:
  "\<exists>New. DeferredDeleteQueue (ReleaseStaleLoop Dev F S i C) = DeferredDeleteQueue C @ New"
proof (induction Dev F S i C rule: ReleaseStaleLoop.induct)
  case (1 Dev F S i C)
  show ?case
  proof (cases "i < length (FreeList C)")
    case False
    then show ?thesis by (simp add: ReleaseStaleLoop.simps [of Dev F S i C])
  next
    case True
    show ?thesis
    proof (cases "IsStale Dev F S (FreeList C ! i)")
      case stale: True
      with "1.IH"(1) [OF True refl stale] True show ?thesis
        by (auto simp: ReleaseStaleLoop.simps [of Dev F S i C] Let_def)
    next
      case fresh: False
      with "1.IH"(2) [OF True refl fresh] True show ?thesis
        by (auto simp: ReleaseStaleLoop.simps [of Dev F S i C] Let_def)
    qed
  qed
qed

lemma older_is_stale:
  assumes "unat (LastUsedFrame It) + 100 < unat (NextFenceToSignal Dev)
           \<or> LastUsedTime It + 5 < Seconds Dev"
  shows "IsStale Dev 100 5 It"
proof -
  have "LastUsedFrame It + ucast (100 :: 32 word) \<le> NextFenceToSignal Dev"
    if old: "unat (LastUsedFrame It) + 100 < unat (NextFenceToSignal Dev)"
  proof -
    have "unat (NextFenceToSignal Dev) < 2 ^ 64" using unsigned_less [of "NextFenceToSignal Dev"] by simp
    with old have "unat (LastUsedFrame It) + unat (100 :: 64 word) < 2 ^ LENGTH(64)" by simp
    then have "unat (LastUsedFrame It + 100) = unat (LastUsedFrame It) + unat (100 :: 64 word)"
      by (simp only: unat_add_lem)
    with old show ?thesis by (simp add: word_le_nat_alt)
  qed
  with assms show ?thesis by (auto simp: IsStale_def)
qed

lemma ReleaseEach_append: "ReleaseEach xs R = R @ map Heap xs"
  by (induction xs arbitrary: R) simp_all

subsection \<open>The two outcomes of AllocateHeap\<close>

lemma AllocateHeap_hit:
  assumes "\<exists>It \<in> set (FreeList C). IsCompatible T (AlignedNumDescriptors B T N) It"
  shows "\<exists>i < length (FreeList C).
           IsCompatible T (AlignedNumDescriptors B T N) (FreeList C ! i)
         \<and> (\<forall>j < i. \<not> IsCompatible T (AlignedNumDescriptors B T N) (FreeList C ! j))
         \<and> AllocateHeap B Dev C T N =
             Inr (C\<lparr>NumAllocatedEntries := NumAllocatedEntries C + 1,
                    FreeList := RemoveAtSwap i (FreeList C)\<rparr>, FreeList C ! i)"
proof -
  let ?A = "AlignedNumDescriptors B T N"
  from assms have "FindCompatible (FreeList C) T ?A 0 \<noteq> None"
    by (simp add: FindCompatible_None_set)
  then obtain i where found: "FindCompatible (FreeList C) T ?A 0 = Some i" by auto
  from FindCompatible_Some [OF found]
  have "i < length (FreeList C)" "IsCompatible T ?A (FreeList C ! i)"
    "\<forall>j < i. \<not> IsCompatible T ?A (FreeList C ! j)" by simp_all
  moreover from found have "AllocateHeap B Dev C T N =
      Inr (C\<lparr>NumAllocatedEntries := NumAllocatedEntries C + 1,
             FreeList := RemoveAtSwap i (FreeList C)\<rparr>, FreeList C ! i)"
    by (simp add: AllocateHeap_def Let_def)
  ultimately show ?thesis by blast
qed

lemma AllocateHeap_miss:
  assumes "\<not> (\<exists>It \<in> set (FreeList C). IsCompatible T (AlignedNumDescriptors B T N) It)"
  shows "AllocateHeap B Dev C T N =
     (case CreateDescriptorHeap Dev (T, AlignedNumDescriptors B T N) of
        None \<Rightarrow> Inl FatalCreateDescriptorHeapFailed
      | Some NewHeap \<Rightarrow>
          Inr ((ReleaseStaleEntries Dev (C\<lparr>NumAllocatedEntries := NumAllocatedEntries C + 1\<rparr>) 100 5)
                 \<lparr>CreatedHeaps := CreatedHeaps C @ [(T, AlignedNumDescriptors B T N)]\<rparr>,
               \<lparr>Type = T, NumDescriptors = AlignedNumDescriptors B T N, Heap = NewHeap,
                LastUsedFrame = 0, LastUsedTime = 0\<rparr>))"
proof -
  from assms have "FindCompatible (FreeList C) T (AlignedNumDescriptors B T N) 0 = None"
    by (simp add: FindCompatible_None_set)
  then show ?thesis
    by (simp add: AllocateHeap_def Let_def ReleaseStaleEntries_def ReleaseStaleLoop_frame
        split: option.splits)
qed

lemma AllocateHeap_capacity:
  assumes "AllocateHeap B Dev C T N = Inr (C', e)"
  shows "AlignedNumDescriptors B T N \<le> NumDescriptors e"
proof (cases "\<exists>It \<in> set (FreeList C). IsCompatible T (AlignedNumDescriptors B T N) It")
  case True
  from AllocateHeap_hit [OF True, of Dev] assms show ?thesis
    by (auto simp: IsCompatible_def)
next
  case False
  from AllocateHeap_miss [OF False, of Dev] assms show ?thesis
    by (auto split: option.splits)
qed

subsection \<open>The aligned request\<close>

text \<open>
  Claim C2. \<open>AllocateHeap\<close> replaces the requested count by the smaller of its rounding
  up to a power of two and the maximum of the heap type (2048 for sampler heaps, the
  tier-1 limit otherwise). For a request of at most \<open>2 ^ 31\<close> the rounding is the least
  power of two that is not below the request. Every entry that \<open>AllocateHeap\<close> returns
  has at least the aligned count, and a heap created because no free entry is compatible
  has exactly that count. In particular 3,000 sampler descriptors give 2,048, and 70,000
  view descriptors give 131,072 whenever the tier-1 limit is at least 131,072.
\<close>

theorem AllocateHeap_aligns_request:
  "AlignedNumDescriptors B T N =
     min (RoundUpToPowerOfTwo N)
       (if T = D3D12_DESCRIPTOR_HEAP_TYPE_SAMPLER then D3D12_MAX_SHADER_VISIBLE_SAMPLER_HEAP_SIZE
        else D3D12_MAX_SHADER_VISIBLE_DESCRIPTOR_HEAP_SIZE_TIER_1 B)
   \<and> (unat N \<le> 2 ^ 31 \<longrightarrow>
        (\<exists>k. unat (RoundUpToPowerOfTwo N) = 2 ^ k \<and> unat N \<le> 2 ^ k
             \<and> (0 < k \<longrightarrow> 2 ^ (k - 1) < unat N)))
   \<and> (\<forall>Dev C C' e. AllocateHeap B Dev C T N = Inr (C', e) \<longrightarrow>
        AlignedNumDescriptors B T N \<le> NumDescriptors e
        \<and> (\<not> (\<exists>It \<in> set (FreeList C). IsCompatible T (AlignedNumDescriptors B T N) It) \<longrightarrow>
             NumDescriptors e = AlignedNumDescriptors B T N
             \<and> CreatedHeaps C' = CreatedHeaps C @ [(T, AlignedNumDescriptors B T N)]))
   \<and> AlignedNumDescriptors B D3D12_DESCRIPTOR_HEAP_TYPE_SAMPLER 3000 = 2048
   \<and> (131072 \<le> D3D12_MAX_SHADER_VISIBLE_DESCRIPTOR_HEAP_SIZE_TIER_1 B \<longrightarrow>
        AlignedNumDescriptors B D3D12_DESCRIPTOR_HEAP_TYPE_CBV_SRV_UAV 70000 = 131072)"
proof (intro conjI allI impI)
  show "AlignedNumDescriptors B T N =
     min (RoundUpToPowerOfTwo N)
       (if T = D3D12_DESCRIPTOR_HEAP_TYPE_SAMPLER then D3D12_MAX_SHADER_VISIBLE_SAMPLER_HEAP_SIZE
        else D3D12_MAX_SHADER_VISIBLE_DESCRIPTOR_HEAP_SIZE_TIER_1 B)"
    by (rule AlignedNumDescriptors_min)
next
  assume "unat N \<le> 2 ^ 31"
  then show "\<exists>k. unat (RoundUpToPowerOfTwo N) = 2 ^ k \<and> unat N \<le> 2 ^ k
             \<and> (0 < k \<longrightarrow> 2 ^ (k - 1) < unat N)"
    by (rule RoundUpToPowerOfTwo_least)
next
  fix Dev C C' e
  assume "AllocateHeap B Dev C T N = Inr (C', e)"
  then show "AlignedNumDescriptors B T N \<le> NumDescriptors e" by (rule AllocateHeap_capacity)
next
  fix Dev C C' e
  assume run: "AllocateHeap B Dev C T N = Inr (C', e)"
    and miss: "\<not> (\<exists>It \<in> set (FreeList C). IsCompatible T (AlignedNumDescriptors B T N) It)"
  from AllocateHeap_miss [OF miss, of Dev] run
  show "NumDescriptors e = AlignedNumDescriptors B T N"
    and "CreatedHeaps C' = CreatedHeaps C @ [(T, AlignedNumDescriptors B T N)]"
    by (auto split: option.splits)
next
  show "AlignedNumDescriptors B D3D12_DESCRIPTOR_HEAP_TYPE_SAMPLER 3000 = 2048"
    by (simp add: AlignedNumDescriptors_def RoundUpToPowerOfTwo_def Clamp_def BitLength.simps
        D3D12_MAX_SHADER_VISIBLE_SAMPLER_HEAP_SIZE_def)
next
  assume "131072 \<le> D3D12_MAX_SHADER_VISIBLE_DESCRIPTOR_HEAP_SIZE_TIER_1 B"
  then show "AlignedNumDescriptors B D3D12_DESCRIPTOR_HEAP_TYPE_CBV_SRV_UAV 70000 = 131072"
    by (simp add: AlignedNumDescriptors_def RoundUpToPowerOfTwo_def Clamp_def BitLength.simps
        min_def)
qed

text \<open>
  With the tier-1 limit of 1,000,000 and no compatible free entry, a request for 70,000
  view descriptors creates a heap of 131,072.
\<close>

theorem AllocateHeap_aligns_request_witness:
  "unat (70000 :: uint32) \<le> 2 ^ 31
   \<and> 131072 \<le> D3D12_MAX_SHADER_VISIBLE_DESCRIPTOR_HEAP_SIZE_TIER_1 SampleBuild
   \<and> AlignedNumDescriptors SampleBuild D3D12_DESCRIPTOR_HEAP_TYPE_CBV_SRV_UAV 70000 = 131072
   \<and> AlignedNumDescriptors SampleBuild D3D12_DESCRIPTOR_HEAP_TYPE_SAMPLER 3000 = 2048
   \<and> (\<exists>k. unat (RoundUpToPowerOfTwo 70000) = 2 ^ k \<and> unat (70000 :: uint32) \<le> 2 ^ k
           \<and> 0 < k \<and> 2 ^ (k - 1) < unat (70000 :: uint32))
   \<and> (\<exists>C'. AllocateHeap SampleBuild SampleDevice SampleHeapCache
               D3D12_DESCRIPTOR_HEAP_TYPE_CBV_SRV_UAV 70000
             = Inr (C', \<lparr>Type = D3D12_DESCRIPTOR_HEAP_TYPE_CBV_SRV_UAV, NumDescriptors = 131072,
                         Heap = 20, LastUsedFrame = 0, LastUsedTime = 0\<rparr>)
           \<and> CreatedHeaps C' = [(D3D12_DESCRIPTOR_HEAP_TYPE_CBV_SRV_UAV, 131072)])"
proof -
  note inst = AllocateHeap_aligns_request
    [of SampleBuild D3D12_DESCRIPTOR_HEAP_TYPE_CBV_SRV_UAV 70000]
  have small: "unat (70000 :: uint32) \<le> 2 ^ 31" by simp
  have tier: "131072 \<le> D3D12_MAX_SHADER_VISIBLE_DESCRIPTOR_HEAP_SIZE_TIER_1 SampleBuild"
    by (simp add: SampleBuild_def)
  from inst tier have view: "AlignedNumDescriptors SampleBuild D3D12_DESCRIPTOR_HEAP_TYPE_CBV_SRV_UAV 70000 = 131072"
    by blast
  from inst have sampler: "AlignedNumDescriptors SampleBuild D3D12_DESCRIPTOR_HEAP_TYPE_SAMPLER 3000 = 2048"
    by blast
  from inst small obtain k where k: "unat (RoundUpToPowerOfTwo 70000) = 2 ^ k" "unat (70000 :: uint32) \<le> 2 ^ k"
    "0 < k \<longrightarrow> 2 ^ (k - 1) < unat (70000 :: uint32)" by blast
  from k(2) have "0 < k" by (cases k) simp_all
  with k have pow: "\<exists>k. unat (RoundUpToPowerOfTwo 70000) = 2 ^ k \<and> unat (70000 :: uint32) \<le> 2 ^ k
           \<and> 0 < k \<and> 2 ^ (k - 1) < unat (70000 :: uint32)" by blast
  have miss: "\<not> (\<exists>It \<in> set (FreeList SampleHeapCache).
      IsCompatible D3D12_DESCRIPTOR_HEAP_TYPE_CBV_SRV_UAV
        (AlignedNumDescriptors SampleBuild D3D12_DESCRIPTOR_HEAP_TYPE_CBV_SRV_UAV 70000) It)"
    by (simp add: view SampleHeapCache_def IsCompatible_def)
  obtain C' where run: "AllocateHeap SampleBuild SampleDevice SampleHeapCache
               D3D12_DESCRIPTOR_HEAP_TYPE_CBV_SRV_UAV 70000
             = Inr (C', \<lparr>Type = D3D12_DESCRIPTOR_HEAP_TYPE_CBV_SRV_UAV, NumDescriptors = 131072,
                         Heap = 20, LastUsedFrame = 0, LastUsedTime = 0\<rparr>)"
    using AllocateHeap_miss [OF miss, of SampleDevice] by (simp add: view SampleDevice_def)
  from inst run miss have "CreatedHeaps C' = CreatedHeaps SampleHeapCache @
      [(D3D12_DESCRIPTOR_HEAP_TYPE_CBV_SRV_UAV,
        AlignedNumDescriptors SampleBuild D3D12_DESCRIPTOR_HEAP_TYPE_CBV_SRV_UAV 70000)]"
    by blast
  then have "CreatedHeaps C' = [(D3D12_DESCRIPTOR_HEAP_TYPE_CBV_SRV_UAV, 131072)]"
    by (simp add: view SampleHeapCache_def)
  with small tier view sampler pow run show ?thesis by blast
qed

subsection \<open>When stale entries are purged\<close>

text \<open>
  Claim C6. Let \<open>AllocateHeap\<close> return. If the free list held a compatible entry, nothing
  was purged: the deferred-delete queue is unchanged, no heap was created or released,
  and the free list has lost the returned entry only. If it held none, a heap was created
  and the free list has lost exactly the entries that pass the test of lines 162 and 163
  for 100 frames and 5 seconds; their heaps were appended to the deferred-delete queue
  and none was released synchronously. Every entry last used more than 100 fence values
  or more than 5 seconds ago passes that test (the test itself is inclusive).
\<close>

theorem AllocateHeap_purges_only_on_miss:
  assumes run: "AllocateHeap B Dev C T N = Inr (C', e)"
  shows "((\<exists>It \<in> set (FreeList C). IsCompatible T (AlignedNumDescriptors B T N) It) \<longrightarrow>
            DeferredDeleteQueue C' = DeferredDeleteQueue C
          \<and> ReleasedHeaps C' = ReleasedHeaps C
          \<and> CreatedHeaps C' = CreatedHeaps C
          \<and> add_mset e (mset (FreeList C')) = mset (FreeList C))
       \<and> (\<not> (\<exists>It \<in> set (FreeList C). IsCompatible T (AlignedNumDescriptors B T N) It) \<longrightarrow>
            CreatedHeaps C' = CreatedHeaps C @ [(T, AlignedNumDescriptors B T N)]
          \<and> mset (FreeList C') = filter_mset (\<lambda>It. \<not> IsStale Dev 100 5 It) (mset (FreeList C))
          \<and> mset (DeferredDeleteQueue C') =
              mset (DeferredDeleteQueue C)
              + image_mset Heap (filter_mset (IsStale Dev 100 5) (mset (FreeList C)))
          \<and> (\<exists>New. DeferredDeleteQueue C' = DeferredDeleteQueue C @ New)
          \<and> ReleasedHeaps C' = ReleasedHeaps C)
       \<and> (\<forall>It. unat (LastUsedFrame It) + 100 < unat (NextFenceToSignal Dev)
                  \<or> LastUsedTime It + 5 < Seconds Dev \<longrightarrow> IsStale Dev 100 5 It)"
proof (intro conjI impI allI)
  assume hit: "\<exists>It \<in> set (FreeList C). IsCompatible T (AlignedNumDescriptors B T N) It"
  from AllocateHeap_hit [OF hit, of Dev] run obtain i where i: "i < length (FreeList C)"
    and C': "C' = C\<lparr>NumAllocatedEntries := NumAllocatedEntries C + 1,
                     FreeList := RemoveAtSwap i (FreeList C)\<rparr>"
    and e: "e = FreeList C ! i" by auto
  from C' show "DeferredDeleteQueue C' = DeferredDeleteQueue C"
    and "ReleasedHeaps C' = ReleasedHeaps C" and "CreatedHeaps C' = CreatedHeaps C"
    by simp_all
  from i have "FreeList C ! i \<in># mset (FreeList C)" by simp
  with C' e i show "add_mset e (mset (FreeList C')) = mset (FreeList C)"
    by (simp add: mset_RemoveAtSwap)
next
  assume miss: "\<not> (\<exists>It \<in> set (FreeList C). IsCompatible T (AlignedNumDescriptors B T N) It)"
  let ?C1 = "C\<lparr>NumAllocatedEntries := NumAllocatedEntries C + 1\<rparr>"
  from AllocateHeap_miss [OF miss, of Dev] run
  have C': "C' = (ReleaseStaleLoop Dev 100 5 0 ?C1)
                   \<lparr>CreatedHeaps := CreatedHeaps C @ [(T, AlignedNumDescriptors B T N)]\<rparr>"
    by (auto simp: ReleaseStaleEntries_def split: option.splits)
  from C' show "CreatedHeaps C' = CreatedHeaps C @ [(T, AlignedNumDescriptors B T N)]" by simp
  from C' ReleaseStaleLoop_mset [of 0 ?C1 Dev 100 5]
  show "mset (FreeList C') = filter_mset (\<lambda>It. \<not> IsStale Dev 100 5 It) (mset (FreeList C))"
    and "mset (DeferredDeleteQueue C') =
              mset (DeferredDeleteQueue C)
              + image_mset Heap (filter_mset (IsStale Dev 100 5) (mset (FreeList C)))"
    by simp_all
  from C' ReleaseStaleLoop_queue_grows [of Dev 100 5 0 ?C1]
  show "\<exists>New. DeferredDeleteQueue C' = DeferredDeleteQueue C @ New" by simp
  from C' ReleaseStaleLoop_frame [of Dev 100 5 0 ?C1]
  show "ReleasedHeaps C' = ReleasedHeaps C" by simp
next
  fix It :: FEntry
  assume "unat (LastUsedFrame It) + 100 < unat (NextFenceToSignal Dev)
            \<or> LastUsedTime It + 5 < Seconds Dev"
  then show "IsStale Dev 100 5 It" by (rule older_is_stale)
qed

text \<open>
  At fence value 500 and second 60, a request for 100 view descriptors finds the free
  view heap of 64 too small, purges it (last used at fence value 100) and keeps the
  sampler heap (last used at fence value 450 and second 58).
\<close>

theorem AllocateHeap_purges_only_on_miss_witness:
  "\<exists>C' e. AllocateHeap SampleBuild SampleDevice SampleHeapCache
              D3D12_DESCRIPTOR_HEAP_TYPE_CBV_SRV_UAV 100 = Inr (C', e)
     \<and> \<not> (\<exists>It \<in> set (FreeList SampleHeapCache).
            IsCompatible D3D12_DESCRIPTOR_HEAP_TYPE_CBV_SRV_UAV
              (AlignedNumDescriptors SampleBuild D3D12_DESCRIPTOR_HEAP_TYPE_CBV_SRV_UAV 100) It)
     \<and> Heap e = 20
     \<and> mset (FreeList C') =
         {#\<lparr>Type = D3D12_DESCRIPTOR_HEAP_TYPE_SAMPLER, NumDescriptors = 2048, Heap = 12,
            LastUsedFrame = 450, LastUsedTime = 58\<rparr>#}
     \<and> mset (DeferredDeleteQueue C') = {#11#}
     \<and> ReleasedHeaps C' = []"
proof -
  let ?T = "D3D12_DESCRIPTOR_HEAP_TYPE_CBV_SRV_UAV"
  have aligned: "AlignedNumDescriptors SampleBuild ?T 100 = 128"
    by (simp add: AlignedNumDescriptors_def RoundUpToPowerOfTwo_def Clamp_def BitLength.simps
        SampleBuild_def)
  have miss: "\<not> (\<exists>It \<in> set (FreeList SampleHeapCache).
      IsCompatible ?T (AlignedNumDescriptors SampleBuild ?T 100) It)"
    by (simp add: aligned SampleHeapCache_def IsCompatible_def)
  obtain C' where run: "AllocateHeap SampleBuild SampleDevice SampleHeapCache ?T 100 =
      Inr (C', \<lparr>Type = ?T, NumDescriptors = 128, Heap = 20, LastUsedFrame = 0, LastUsedTime = 0\<rparr>)"
    using AllocateHeap_miss [OF miss, of SampleDevice] by (simp add: aligned SampleDevice_def)
  from AllocateHeap_purges_only_on_miss [OF run] miss
  have "mset (FreeList C') =
          filter_mset (\<lambda>It. \<not> IsStale SampleDevice 100 5 It) (mset (FreeList SampleHeapCache))"
    and "mset (DeferredDeleteQueue C') =
          mset (DeferredDeleteQueue SampleHeapCache)
          + image_mset Heap (filter_mset (IsStale SampleDevice 100 5) (mset (FreeList SampleHeapCache)))"
    and "ReleasedHeaps C' = ReleasedHeaps SampleHeapCache"
    by blast+
  then have "mset (FreeList C') =
         {#\<lparr>Type = D3D12_DESCRIPTOR_HEAP_TYPE_SAMPLER, NumDescriptors = 2048, Heap = 12,
            LastUsedFrame = 450, LastUsedTime = 58\<rparr>#}"
    and "mset (DeferredDeleteQueue C') = {#11#}"
    and "ReleasedHeaps C' = []"
    by (simp_all add: SampleHeapCache_def SampleDevice_def IsStale_def)
  with run miss show ?thesis by auto
qed

subsection \<open>Reuse of free entries\<close>

text \<open>
  Claim C8. \<open>AllocateHeap\<close> returns without creating a heap exactly when the free list
  holds an entry of the requested type with at least the aligned count. It then returns
  the first such entry and removes it with \<open>RemoveAtSwap\<close>: the other entries stay, and
  the last one takes the place of the removed one. And when \<open>Init\<close> returns, the heap's
  \<open>MaxNumDescriptors\<close> is the count of the entry it received, which is at least the
  aligned request; that entry comes from the free list whenever a compatible one was
  there.
\<close>

theorem AllocateHeap_reuses_compatible_entry:
  "((\<exists>It \<in> set (FreeList C). IsCompatible T (AlignedNumDescriptors B T N) It)
      \<longleftrightarrow> (\<exists>C' e. AllocateHeap B Dev C T N = Inr (C', e) \<and> CreatedHeaps C' = CreatedHeaps C))
   \<and> ((\<exists>It \<in> set (FreeList C). IsCompatible T (AlignedNumDescriptors B T N) It) \<longrightarrow>
        (\<exists>i < length (FreeList C).
            IsCompatible T (AlignedNumDescriptors B T N) (FreeList C ! i)
          \<and> (\<forall>j < i. \<not> IsCompatible T (AlignedNumDescriptors B T N) (FreeList C ! j))
          \<and> AllocateHeap B Dev C T N =
              Inr (C\<lparr>NumAllocatedEntries := NumAllocatedEntries C + 1,
                     FreeList := RemoveAtSwap i (FreeList C)\<rparr>, FreeList C ! i)
          \<and> mset (RemoveAtSwap i (FreeList C)) = mset (FreeList C) - {#FreeList C ! i#}
          \<and> (\<forall>j < length (FreeList C) - 1.
                RemoveAtSwap i (FreeList C) ! j = (if j = i then last (FreeList C) else FreeList C ! j))))
   \<and> (\<forall>G H C' H'. Init B G Dev C H N T = Inr (C', H') \<longrightarrow>
        MaxNumDescriptors H' = NumDescriptors (HeapCacheEntry H')
      \<and> AlignedNumDescriptors B T N \<le> MaxNumDescriptors H'
      \<and> ((\<exists>It \<in> set (FreeList C). IsCompatible T (AlignedNumDescriptors B T N) It) \<longrightarrow>
           HeapCacheEntry H' \<in> set (FreeList C)))"
proof -
  let ?A = "AlignedNumDescriptors B T N"
  let ?hit = "\<exists>It \<in> set (FreeList C). IsCompatible T ?A It"
  have iff: "?hit \<longleftrightarrow> (\<exists>C' e. AllocateHeap B Dev C T N = Inr (C', e) \<and> CreatedHeaps C' = CreatedHeaps C)"
  proof
    assume ?hit
    from AllocateHeap_hit [OF this, of Dev]
    show "\<exists>C' e. AllocateHeap B Dev C T N = Inr (C', e) \<and> CreatedHeaps C' = CreatedHeaps C"
      by auto
  next
    assume "\<exists>C' e. AllocateHeap B Dev C T N = Inr (C', e) \<and> CreatedHeaps C' = CreatedHeaps C"
    then obtain C' e where run: "AllocateHeap B Dev C T N = Inr (C', e)"
      and same: "CreatedHeaps C' = CreatedHeaps C" by blast
    show ?hit
    proof (rule ccontr)
      assume miss: "\<not> ?hit"
      from AllocateHeap_miss [OF miss, of Dev] run
      have "CreatedHeaps C' = CreatedHeaps C @ [(T, ?A)]" by (auto split: option.splits)
      with same show False by simp
    qed
  qed
  have reuse: "\<exists>i < length (FreeList C).
            IsCompatible T ?A (FreeList C ! i)
          \<and> (\<forall>j < i. \<not> IsCompatible T ?A (FreeList C ! j))
          \<and> AllocateHeap B Dev C T N =
              Inr (C\<lparr>NumAllocatedEntries := NumAllocatedEntries C + 1,
                     FreeList := RemoveAtSwap i (FreeList C)\<rparr>, FreeList C ! i)
          \<and> mset (RemoveAtSwap i (FreeList C)) = mset (FreeList C) - {#FreeList C ! i#}
          \<and> (\<forall>j < length (FreeList C) - 1.
                RemoveAtSwap i (FreeList C) ! j = (if j = i then last (FreeList C) else FreeList C ! j))"
    if ?hit
  proof -
    from AllocateHeap_hit [OF that, of Dev] obtain i where i: "i < length (FreeList C)"
      and rest: "IsCompatible T ?A (FreeList C ! i)"
        "\<forall>j < i. \<not> IsCompatible T ?A (FreeList C ! j)"
        "AllocateHeap B Dev C T N =
              Inr (C\<lparr>NumAllocatedEntries := NumAllocatedEntries C + 1,
                     FreeList := RemoveAtSwap i (FreeList C)\<rparr>, FreeList C ! i)"
      by blast
    from i have "mset (RemoveAtSwap i (FreeList C)) = mset (FreeList C) - {#FreeList C ! i#}"
      by (rule mset_RemoveAtSwap)
    moreover have "\<forall>j < length (FreeList C) - 1.
        RemoveAtSwap i (FreeList C) ! j = (if j = i then last (FreeList C) else FreeList C ! j)"
      by (simp add: nth_RemoveAtSwap)
    ultimately show ?thesis using i rest by blast
  qed
  have init: "MaxNumDescriptors H' = NumDescriptors (HeapCacheEntry H')
      \<and> ?A \<le> MaxNumDescriptors H'
      \<and> (?hit \<longrightarrow> HeapCacheEntry H' \<in> set (FreeList C))"
    if run: "Init B G Dev C H N T = Inr (C', H')" for G H C' H'
  proof -
    from run obtain Entry where alloc: "AllocateHeap B Dev C T N = Inr (C', Entry)"
      and entry: "HeapCacheEntry H' = Entry" and cap: "MaxNumDescriptors H' = NumDescriptors Entry"
      by (auto simp: Init_def Let_def split: if_splits sum.splits)
    from alloc have "?A \<le> NumDescriptors Entry" by (rule AllocateHeap_capacity)
    moreover have "Entry \<in> set (FreeList C)" if ?hit
      using AllocateHeap_hit [OF that, of Dev] alloc by auto
    ultimately show ?thesis using entry cap by simp
  qed
  from iff reuse init show ?thesis by blast
qed

text \<open>
  A sampler heap initialised for 1,000 descriptors (aligned to 1,024) receives the free
  heap of 2,048 descriptors and takes 2,048 as its capacity.
\<close>

theorem AllocateHeap_reuses_compatible_entry_witness:
  "(\<exists>It \<in> set (FreeList SampleHeapCache).
       IsCompatible D3D12_DESCRIPTOR_HEAP_TYPE_SAMPLER
         (AlignedNumDescriptors SampleBuild D3D12_DESCRIPTOR_HEAP_TYPE_SAMPLER 1000) It)
   \<and> AlignedNumDescriptors SampleBuild D3D12_DESCRIPTOR_HEAP_TYPE_SAMPLER 1000 = 1024
   \<and> (\<exists>C' H'. Init SampleBuild InitialGlobals SampleDevice SampleHeapCache UninitializedHeap 1000
                  D3D12_DESCRIPTOR_HEAP_TYPE_SAMPLER = Inr (C', H')
        \<and> MaxNumDescriptors H' = 2048
        \<and> HeapCacheEntry H' \<in> set (FreeList SampleHeapCache)
        \<and> CreatedHeaps C' = []
        \<and> map Heap (FreeList C') = [11])"
proof -
  let ?T = "D3D12_DESCRIPTOR_HEAP_TYPE_SAMPLER"
  have aligned: "AlignedNumDescriptors SampleBuild ?T 1000 = 1024"
    by (simp add: AlignedNumDescriptors_def RoundUpToPowerOfTwo_def Clamp_def BitLength.simps
        D3D12_MAX_SHADER_VISIBLE_SAMPLER_HEAP_SIZE_def)
  have hit: "\<exists>It \<in> set (FreeList SampleHeapCache).
      IsCompatible ?T (AlignedNumDescriptors SampleBuild ?T 1000) It"
    by (simp add: aligned SampleHeapCache_def IsCompatible_def)
  have "\<exists>C' H'. Init SampleBuild InitialGlobals SampleDevice SampleHeapCache UninitializedHeap 1000 ?T
      = Inr (C', H') \<and> MaxNumDescriptors H' = 2048 \<and> CreatedHeaps C' = [] \<and> map Heap (FreeList C') = [11]"
    by (simp add: Init_def UninitializedHeap_def InitialGlobals_def nullptr_def AllocateHeap_def
        aligned SampleDevice_def SampleHeapCache_def FindCompatible.simps IsCompatible_def
        RemoveAtSwap_def Let_def)
  then obtain C' H' where run: "Init SampleBuild InitialGlobals SampleDevice SampleHeapCache
      UninitializedHeap 1000 ?T = Inr (C', H')"
    and facts: "MaxNumDescriptors H' = 2048" "CreatedHeaps C' = []" "map Heap (FreeList C') = [11]"
    by auto
  from AllocateHeap_reuses_compatible_entry
    [of SampleHeapCache ?T SampleBuild 1000 SampleDevice] run hit
  have "HeapCacheEntry H' \<in> set (FreeList SampleHeapCache)" by blast
  with run facts have "\<exists>C' H'. Init SampleBuild InitialGlobals SampleDevice SampleHeapCache
        UninitializedHeap 1000 ?T = Inr (C', H')
        \<and> MaxNumDescriptors H' = 2048
        \<and> HeapCacheEntry H' \<in> set (FreeList SampleHeapCache)
        \<and> CreatedHeaps C' = []
        \<and> map Heap (FreeList C') = [11]"
    by (intro exI [of _ C'] exI [of _ H']) simp
  with hit aligned show ?thesis by (simp only: simp_thms)
qed

subsection \<open>Destruction\<close>

text \<open>
  Claim C9. The destructor fails its \<open>check\<close> when \<open>NumAllocatedEntries\<close> is not 0. When
  it is 0 the destructor returns, having called \<open>Release\<close> on the heap of every entry of
  the free list, in order, and having emptied the list.
\<close>

theorem Destroy_checks_then_releases:
  "(NumAllocatedEntries C \<noteq> 0 \<longrightarrow> Destroy_FD3D12ExplicitDescriptorHeapCache C = Inl CheckFailed)
   \<and> (NumAllocatedEntries C = 0 \<longrightarrow>
        Destroy_FD3D12ExplicitDescriptorHeapCache C =
          Inr (C\<lparr>ReleasedHeaps := ReleasedHeaps C @ map Heap (FreeList C), FreeList := []\<rparr>))"
  by (simp add: Destroy_FD3D12ExplicitDescriptorHeapCache_def ReleaseEach_append)

text \<open>
  With one heap still in use the destructor fails; with none in use it releases the two
  free heaps.
\<close>

theorem Destroy_checks_then_releases_witness:
  "NumAllocatedEntries SampleHeapCache \<noteq> 0
   \<and> Destroy_FD3D12ExplicitDescriptorHeapCache SampleHeapCache = Inl CheckFailed
   \<and> NumAllocatedEntries (SampleHeapCache\<lparr>NumAllocatedEntries := 0\<rparr>) = 0
   \<and> (\<exists>C'. Destroy_FD3D12ExplicitDescriptorHeapCache (SampleHeapCache\<lparr>NumAllocatedEntries := 0\<rparr>) = Inr C'
         \<and> ReleasedHeaps C' = [11, 12] \<and> FreeList C' = [])"
proof -
  have held: "NumAllocatedEntries SampleHeapCache \<noteq> 0" by (simp add: SampleHeapCache_def)
  have returned: "NumAllocatedEntries (SampleHeapCache\<lparr>NumAllocatedEntries := 0\<rparr>) = 0" by simp
  from Destroy_checks_then_releases [of SampleHeapCache] held
  have failed: "Destroy_FD3D12ExplicitDescriptorHeapCache SampleHeapCache = Inl CheckFailed"
    by blast
  from Destroy_checks_then_releases [of "SampleHeapCache\<lparr>NumAllocatedEntries := 0\<rparr>"] returned
  have "\<exists>C'. Destroy_FD3D12ExplicitDescriptorHeapCache (SampleHeapCache\<lparr>NumAllocatedEntries := 0\<rparr>) = Inr C'
         \<and> ReleasedHeaps C' = [11, 12] \<and> FreeList C' = []"
    by (simp add: SampleHeapCache_def)
  with held failed returned show ?thesis by blast
qed

section \<open>Properties of FD3D12ExplicitDescriptorCache\<close>

subsection \<open>Which heaps Init allocates\<close>

text \<open>
  Claim C7, as amended. Let \<open>Init\<close> of the cache return. The sampler heap is untouched
  when samplers are bindless for the configuration, and is the result of the heap's
  \<open>Init\<close> for \<open>NumSamplerDescriptors\<close> otherwise. The view heap is the result of the heap's
  \<open>Init\<close> for the total of line 329, which is \<open>NumConstantDescriptors + NumViewDescriptors\<close>
  when views are not bindless and \<open>NumConstantDescriptors\<close> alone when they are; it is
  untouched exactly when that 32-bit total is 0.
\<close>

theorem Cache_Init_heaps:
  assumes run: "Cache_Init B G Dev M HC C NumConstantDescriptors NumViewDescriptors
                  NumSamplerDescriptors Cfg = Inr (HC', C')"
  shows "(let BindlessViews = (PLATFORM_SUPPORTS_BINDLESS_RENDERING B \<and> AreResourcesBindless M Cfg);
              BindlessSamplers = (PLATFORM_SUPPORTS_BINDLESS_RENDERING B \<and> AreSamplersBindless M Cfg);
              TotalViewDescriptors =
                NumConstantDescriptors + (if BindlessViews then 0 else NumViewDescriptors)
          in (TotalViewDescriptors = 0 \<longrightarrow> ViewHeap C' = ViewHeap C)
           \<and> (TotalViewDescriptors \<noteq> 0 \<longrightarrow>
                (\<exists>HC1. Init B G Dev HC (ViewHeap C) TotalViewDescriptors
                          D3D12_DESCRIPTOR_HEAP_TYPE_CBV_SRV_UAV = Inr (HC1, ViewHeap C')))
           \<and> (BindlessSamplers \<longrightarrow> SamplerHeap C' = SamplerHeap C)
           \<and> (\<not> BindlessSamplers \<longrightarrow>
                (\<exists>HC1. Init B G Dev HC1 (SamplerHeap C) NumSamplerDescriptors
                          D3D12_DESCRIPTOR_HEAP_TYPE_SAMPLER = Inr (HC', SamplerHeap C'))))"
  using run
  by (auto simp: Cache_Init_def Let_def split: if_splits sum.splits prod.splits)

text \<open>
  With nothing bindless, 8 constants, 16 views and 4 samplers, the view heap is
  initialised for 24 descriptors (and gets 32) and the sampler heap for 4.
\<close>

theorem Cache_Init_heaps_witness:
  "\<exists>HC' C' HC1 HC2.
      Cache_Init SampleBuild InitialGlobals SampleDevice SampleBindlessManager EmptyHeapCache
        SampleCache 8 16 4 0 = Inr (HC', C')
    \<and> \<not> AreResourcesBindless SampleBindlessManager 0
    \<and> \<not> AreSamplersBindless SampleBindlessManager 0
    \<and> Init SampleBuild InitialGlobals SampleDevice EmptyHeapCache (ViewHeap SampleCache) 24
          D3D12_DESCRIPTOR_HEAP_TYPE_CBV_SRV_UAV = Inr (HC1, ViewHeap C')
    \<and> Init SampleBuild InitialGlobals SampleDevice HC2 (SamplerHeap SampleCache) 4
          D3D12_DESCRIPTOR_HEAP_TYPE_SAMPLER = Inr (HC', SamplerHeap C')
    \<and> MaxNumDescriptors (ViewHeap C') = 32
    \<and> MaxNumDescriptors (SamplerHeap C') = 4"
proof -
  have "\<exists>HC' C'. Cache_Init SampleBuild InitialGlobals SampleDevice SampleBindlessManager EmptyHeapCache
        SampleCache 8 16 4 0 = Inr (HC', C')
      \<and> MaxNumDescriptors (ViewHeap C') = 32 \<and> MaxNumDescriptors (SamplerHeap C') = 4"
    by (simp add: Cache_Init_def Init_def UninitializedHeap_def InitialGlobals_def nullptr_def
        AllocateHeap_def SampleBuild_def SampleDevice_def EmptyHeapCache_def SampleCache_def
        SampleBindlessManager_def AlignedNumDescriptors_def RoundUpToPowerOfTwo_def Clamp_def
        BitLength.simps FindCompatible.simps IsCompatible_def ReleaseStaleEntries_def
        ReleaseStaleLoop.simps IsStale_def RemoveAtSwap_def Let_def
        D3D12_MAX_SHADER_VISIBLE_SAMPLER_HEAP_SIZE_def)
  then obtain HC' C' where run: "Cache_Init SampleBuild InitialGlobals SampleDevice
        SampleBindlessManager EmptyHeapCache SampleCache 8 16 4 0 = Inr (HC', C')"
    and sizes: "MaxNumDescriptors (ViewHeap C') = 32" "MaxNumDescriptors (SamplerHeap C') = 4"
    by auto
  have off: "\<not> AreResourcesBindless SampleBindlessManager 0"
    "\<not> AreSamplersBindless SampleBindlessManager 0"
    by (simp_all add: SampleBindlessManager_def)
  from Cache_Init_heaps [OF run] off
  obtain HC1 HC2 where
    "Init SampleBuild InitialGlobals SampleDevice EmptyHeapCache (ViewHeap SampleCache) 24
          D3D12_DESCRIPTOR_HEAP_TYPE_CBV_SRV_UAV = Inr (HC1, ViewHeap C')"
    "Init SampleBuild InitialGlobals SampleDevice HC2 (SamplerHeap SampleCache) 4
          D3D12_DESCRIPTOR_HEAP_TYPE_SAMPLER = Inr (HC', SamplerHeap C')"
    by (auto simp: Let_def)
  with run off sizes show ?thesis
    by (intro exI [of _ HC'] exI [of _ C'] exI [of _ HC1] exI [of _ HC2]) simp
qed

text \<open>
  Bindless views do not leave the view heap unallocated: with 8 constants the cache still
  creates a view heap, of 8 descriptors.
\<close>

theorem Cache_Init_bindless_views_counterexample:
  "PLATFORM_SUPPORTS_BINDLESS_RENDERING SampleBuild
   \<and> AreResourcesBindless SampleBindlessManager 1
   \<and> \<not> isl (Cache_Init SampleBuild InitialGlobals SampleDevice SampleBindlessManager
               EmptyHeapCache SampleCache 8 16 4 1)
   \<and> D3D12Heap (ViewHeap (snd (projr (Cache_Init SampleBuild InitialGlobals SampleDevice
               SampleBindlessManager EmptyHeapCache SampleCache 8 16 4 1)))) = 20
   \<and> MaxNumDescriptors (ViewHeap (snd (projr (Cache_Init SampleBuild InitialGlobals SampleDevice
               SampleBindlessManager EmptyHeapCache SampleCache 8 16 4 1)))) = 8
   \<and> CreatedHeaps (fst (projr (Cache_Init SampleBuild InitialGlobals SampleDevice
               SampleBindlessManager EmptyHeapCache SampleCache 8 16 4 1)))
        = [(D3D12_DESCRIPTOR_HEAP_TYPE_CBV_SRV_UAV, 8), (D3D12_DESCRIPTOR_HEAP_TYPE_SAMPLER, 4)]
   \<and> D3D12Heap (ViewHeap SampleCache) = nullptr"
  by (simp add: Cache_Init_def Init_def UninitializedHeap_def InitialGlobals_def nullptr_def
        AllocateHeap_def SampleBuild_def SampleDevice_def EmptyHeapCache_def SampleCache_def
        SampleBindlessManager_def AlignedNumDescriptors_def RoundUpToPowerOfTwo_def Clamp_def
        BitLength.simps FindCompatible.simps IsCompatible_def ReleaseStaleEntries_def
        ReleaseStaleLoop.simps IsStale_def RemoveAtSwap_def Let_def
        D3D12_MAX_SHADER_VISIBLE_SAMPLER_HEAP_SIZE_def)

subsection \<open>The per-worker tables\<close>

lemma length_SetTableBaseIndex [simp]:
  "length (WorkerData (SetTableBaseIndex T w k v C)) = length (WorkerData C)"
  by (simp add: SetTableBaseIndex_def)

lemma MapOf_SetTableBaseIndex:
  assumes "w' < length (WorkerData C)"
  shows "MapOf T (WorkerData (SetTableBaseIndex T' w' k' v C) ! w) k =
           (if w = w' \<and> (T = D3D12_DESCRIPTOR_HEAP_TYPE_CBV_SRV_UAV) = (T' = D3D12_DESCRIPTOR_HEAP_TYPE_CBV_SRV_UAV)
               \<and> k = k'
            then Some v else MapOf T (WorkerData C ! w) k)"
  using assms by (auto simp: SetTableBaseIndex_def MapOf_def SetMapOf_def nth_list_update)

lemma SetTableBaseIndex_same:
  assumes "w < length (WorkerData C)" and "MapOf T (WorkerData C ! w) k = Some v"
  shows "SetTableBaseIndex T w k v C = C"
proof -
  from assms(2) have "(MapOf T (WorkerData C ! w))(k \<mapsto> v) = MapOf T (WorkerData C ! w)"
    by (rule map_upd_triv)
  moreover have "SetMapOf T (MapOf T W) W = W" for W :: "'a FWorkerThreadData"
    by (simp add: SetMapOf_def MapOf_def)
  ultimately show ?thesis using assms(1) by (simp add: SetTableBaseIndex_def)
qed

lemma HeapOf_SetTableBaseIndex [simp]: "HeapOf T (SetTableBaseIndex T' w k v C) = HeapOf T C"
  by (simp add: HeapOf_def SetTableBaseIndex_def)

lemma Cache_Allocate_tables:
  assumes "Cache_Allocate B E C G Ds n T w = Inr (C', G', r)"
  shows "length (WorkerData C') = length (WorkerData C)
       \<and> (\<forall>T' w'. MapOf T' (WorkerData C' ! w') = MapOf T' (WorkerData C ! w'))"
proof -
  have upd: "MapOf T' ((WorkerData C)[unat w := (WorkerData C ! unat w)\<lparr>ReservedViewDescriptors := R\<rparr>] ! w')
      = MapOf T' (WorkerData C ! w')" for T' w' R
    by (cases "unat w < length (WorkerData C)"; cases "w' = unat w")
       (simp_all add: MapOf_def list_update_beyond)
  from assms show ?thesis
    by (auto simp: Cache_Allocate_def Let_def SetHeapOf_def upd
        split: if_splits sum.splits prod.splits)
qed

text \<open>
  What a returning call of \<open>AllocateDeduplicated\<close> has done when the full compare is
  compiled out: either the key was stored with an offset, which is returned and nothing
  changes; or the key's entry is now the returned value and no other entry has changed.
\<close>

lemma AllocateDeduplicated_cases:
  assumes off: "\<not> EXPLICIT_DESCRIPTOR_CACHE_FULL_COMPARE B"
      and run: "AllocateDeduplicated B E C G Vs Ds n T w = Inr (C', G', r)"
  obtains
    (hit) "unat w < length (WorkerData C)"
      "MapOf T (WorkerData C ! unat w) (Fingerprint E Vs Ds n) = Some r"
      "r \<noteq> INDEX_NONE" "C' = C" "G' = G"
  | (miss) "unat w < length (WorkerData C)"
      "MapOf T (WorkerData C ! unat w) (Fingerprint E Vs Ds n) = None
         \<or> MapOf T (WorkerData C ! unat w) (Fingerprint E Vs Ds n) = Some INDEX_NONE"
      "length (WorkerData C') = length (WorkerData C)"
      "MapOf T (WorkerData C' ! unat w) (Fingerprint E Vs Ds n) = Some r"
      "\<And>T' w' k. \<not> (w' = unat w
            \<and> (T' = D3D12_DESCRIPTOR_HEAP_TYPE_CBV_SRV_UAV) = (T = D3D12_DESCRIPTOR_HEAP_TYPE_CBV_SRV_UAV)
            \<and> k = Fingerprint E Vs Ds n) \<Longrightarrow>
          MapOf T' (WorkerData C' ! w') k = MapOf T' (WorkerData C ! w') k"
proof -
  let ?k = "Fingerprint E Vs Ds n"
  let ?old = "case MapOf T (WorkerData C ! unat w) ?k of None \<Rightarrow> INDEX_NONE | Some v \<Rightarrow> v"
  let ?C1 = "SetTableBaseIndex T (unat w) ?k ?old C"
  from run have w: "unat w < length (WorkerData C)"
    by (auto simp: AllocateDeduplicated_def split: if_splits)
  show thesis
  proof (cases "?old = INDEX_NONE")
    case False
    then obtain v where v: "MapOf T (WorkerData C ! unat w) ?k = Some v" "v \<noteq> INDEX_NONE"
      by (auto split: option.splits)
    with w have "?C1 = C" by (simp add: SetTableBaseIndex_same)
    with run off v w have "C' = C" "G' = G" "r = v"
      by (auto simp: AllocateDeduplicated_def Let_def split: if_splits)
    with v w show thesis by (intro hit) simp_all
  next
    case True
    then have old: "MapOf T (WorkerData C ! unat w) ?k = None
         \<or> MapOf T (WorkerData C ! unat w) ?k = Some INDEX_NONE"
      by (auto split: option.splits)
    from run off True w obtain C2 where
      C': "C' = SetTableBaseIndex T (unat w) ?k r C2"
      and C2: "length (WorkerData C2) = length (WorkerData ?C1)"
        "\<forall>T' w'. MapOf T' (WorkerData C2 ! w') = MapOf T' (WorkerData ?C1 ! w')"
      by (auto simp: AllocateDeduplicated_def Let_def
          split: if_splits sum.splits prod.splits dest!: Cache_Allocate_tables)
    from C' C2 w have len: "length (WorkerData C') = length (WorkerData C)" by simp
    from C' C2 w have new: "MapOf T (WorkerData C' ! unat w) ?k = Some r"
      by (simp add: MapOf_SetTableBaseIndex)
    have other: "MapOf T' (WorkerData C' ! w') k = MapOf T' (WorkerData C ! w') k"
      if "\<not> (w' = unat w
            \<and> (T' = D3D12_DESCRIPTOR_HEAP_TYPE_CBV_SRV_UAV) = (T = D3D12_DESCRIPTOR_HEAP_TYPE_CBV_SRV_UAV)
            \<and> k = ?k)" for T' w' k
    proof -
      from C' C2(1) w that have "MapOf T' (WorkerData C' ! w') k = MapOf T' (WorkerData C2 ! w') k"
        by (auto simp: MapOf_SetTableBaseIndex)
      also from C2(2) have "\<dots> = MapOf T' (WorkerData ?C1 ! w') k" by simp
      also from w that have "\<dots> = MapOf T' (WorkerData C ! w') k"
        by (auto simp: MapOf_SetTableBaseIndex)
      finally show ?thesis .
    qed
    from w old len new other show thesis by (rule miss)
  qed
qed

lemma MapOf_same_class:
  "(T = D3D12_DESCRIPTOR_HEAP_TYPE_CBV_SRV_UAV) = (T' = D3D12_DESCRIPTOR_HEAP_TYPE_CBV_SRV_UAV)
     \<Longrightarrow> MapOf T W = MapOf T' W"
  by (auto simp: MapOf_def)

lemma AllocateDeduplicated_buffers:
  assumes "AllocateDeduplicated B E C G Vs Ds n T w = Inr (C', G', r)"
  shows "unat w < length (WorkerData C) \<and> unat n \<le> length Vs \<and> unat n \<le> length Ds"
  using assms by (auto simp: AllocateDeduplicated_def split: if_splits)

lemma AllocateDeduplicated_length:
  assumes "AllocateDeduplicated B E C G Vs Ds n T w = Inr (C', G', r)"
  shows "length (WorkerData C') = length (WorkerData C)"
  using assms
  by (auto simp: AllocateDeduplicated_def Let_def
      split: if_splits sum.splits prod.splits dest!: Cache_Allocate_tables)

text \<open>The path of lines 357 to 366: a stored offset is returned and nothing changes.\<close>

lemma AllocateDeduplicated_hit:
  assumes w: "unat w < length (WorkerData C)"
      and buffers: "unat n \<le> length Vs" "unat n \<le> length Ds"
      and stored: "MapOf T (WorkerData C ! unat w) (Fingerprint E Vs Ds n) = Some r"
      and offset: "r \<noteq> INDEX_NONE"
      and validated: "EXPLICIT_DESCRIPTOR_CACHE_FULL_COMPARE B \<longrightarrow>
                        CompareDescriptors (HeapOf T C) r Ds n = Inr True"
  shows "AllocateDeduplicated B E C G Vs Ds n T w = Inr (C, G, r)"
proof -
  from w stored have "SetTableBaseIndex T (unat w) (Fingerprint E Vs Ds n) r C = C"
    by (rule SetTableBaseIndex_same)
  with assms show ?thesis
    by (simp add: AllocateDeduplicated_def Let_def)
qed

lemma RunCall_keeps_entry:
  assumes off: "\<not> EXPLICIT_DESCRIPTOR_CACHE_FULL_COMPARE B"
      and offset: "r \<noteq> INDEX_NONE"
      and w: "w < length (WorkerData C)"
      and stored: "MapOf T (WorkerData C ! w) k = Some r"
      and run: "RunCall B E C G c = Inr (C', G', r')"
  shows "w < length (WorkerData C') \<and> MapOf T (WorkerData C' ! w) k = Some r"
proof (cases c)
  case (CallAllocate Ds n T' w')
  with run have "Cache_Allocate B E C G Ds n T' w' = Inr (C', G', r')" by simp
  from Cache_Allocate_tables [OF this] w stored show ?thesis by simp
next
  case (CallAllocateDeduplicated Vs Ds n T' w')
  with run have call: "AllocateDeduplicated B E C G Vs Ds n T' w' = Inr (C', G', r')" by simp
  from off call show ?thesis
  proof (cases rule: AllocateDeduplicated_cases)
    case hit
    with w stored show ?thesis by simp
  next
    case miss
    have "\<not> (w = unat w'
            \<and> (T = D3D12_DESCRIPTOR_HEAP_TYPE_CBV_SRV_UAV) = (T' = D3D12_DESCRIPTOR_HEAP_TYPE_CBV_SRV_UAV)
            \<and> k = Fingerprint E Vs Ds n)"
    proof
      assume same: "w = unat w'
            \<and> (T = D3D12_DESCRIPTOR_HEAP_TYPE_CBV_SRV_UAV) = (T' = D3D12_DESCRIPTOR_HEAP_TYPE_CBV_SRV_UAV)
            \<and> k = Fingerprint E Vs Ds n"
      then have "MapOf T (WorkerData C ! w) k
          = MapOf T' (WorkerData C ! unat w') (Fingerprint E Vs Ds n)"
        using MapOf_same_class [of T T' "WorkerData C ! unat w'"] by simp
      with stored miss(2) offset show False by auto
    qed
    from miss(5) [OF this] stored miss(3) w show ?thesis by simp
  qed
qed

lemma RunCalls_keeps_entry:
  assumes off: "\<not> EXPLICIT_DESCRIPTOR_CACHE_FULL_COMPARE B"
      and offset: "r \<noteq> INDEX_NONE"
      and w: "w < length (WorkerData C)"
      and stored: "MapOf T (WorkerData C ! w) k = Some r"
      and run: "snd (RunCalls B E C G cs) = Inr (C', G')"
  shows "w < length (WorkerData C') \<and> MapOf T (WorkerData C' ! w) k = Some r"
  using w stored run
proof (induction cs arbitrary: C G)
  case Nil
  then show ?case by simp
next
  case (Cons c cs)
  from Cons.prems(3) obtain C1 G1 r1 where step: "RunCall B E C G c = Inr (C1, G1, r1)"
    and rest: "snd (RunCalls B E C1 G1 cs) = Inr (C', G')"
    by (auto split: sum.splits prod.splits)
  from RunCall_keeps_entry [OF off offset Cons.prems(1,2) step]
  have "w < length (WorkerData C1)" "MapOf T (WorkerData C1 ! w) k = Some r" by simp_all
  then show ?case using rest by (rule Cons.IH)
qed

lemma RunCalls_length:
  assumes "snd (RunCalls B E C G cs) = Inr (C', G')"
  shows "length (WorkerData C') = length (WorkerData C)"
  using assms
proof (induction cs arbitrary: C G)
  case Nil
  then show ?case by simp
next
  case (Cons c cs)
  from Cons.prems obtain C1 G1 r1 where step: "RunCall B E C G c = Inr (C1, G1, r1)"
    and rest: "snd (RunCalls B E C1 G1 cs) = Inr (C', G')"
    by (auto split: sum.splits prod.splits)
  from step have "length (WorkerData C1) = length (WorkerData C)"
    by (cases c) (auto dest: AllocateDeduplicated_length Cache_Allocate_tables)
  with Cons.IH [OF rest] show ?case by simp
qed

subsection \<open>A table requested twice\<close>

text \<open>
  Claim C3. Let a call of \<open>AllocateDeduplicated\<close> return an offset (not \<open>INDEX_NONE\<close>) for
  a table, let any calls on the cache follow, and let the same worker then request the
  same table for the same heap type. With the full compare compiled out, which is the
  source's default, the second call returns the same offset and leaves the cache, the
  heaps and the globals as they were: no cursor has moved, nothing was copied, nothing
  was logged. The worker's table for the heap type maps the fingerprint to that offset.
  With the full compare compiled in, the same holds when the table still holds the
  offset and the comparison of the stored descriptors succeeds.
\<close>

theorem AllocateDeduplicated_repeat:
  assumes first: "AllocateDeduplicated B E C0 G0 Vs Ds n T w = Inr (C1, G1, r)"
      and offset: "r \<noteq> INDEX_NONE"
      and between: "snd (RunCalls B E C1 G1 calls) = Inr (C2, G2)"
      and validated: "EXPLICIT_DESCRIPTOR_CACHE_FULL_COMPARE B \<longrightarrow>
            MapOf T (WorkerData C2 ! unat w) (Fingerprint E Vs Ds n) = Some r
          \<and> CompareDescriptors (HeapOf T C2) r Ds n = Inr True"
  shows "AllocateDeduplicated B E C2 G2 Vs Ds n T w = Inr (C2, G2, r)
       \<and> MapOf T (WorkerData C2 ! unat w) (Fingerprint E Vs Ds n) = Some r"
proof -
  from AllocateDeduplicated_buffers [OF first]
  have w0: "unat w < length (WorkerData C0)" and buffers: "unat n \<le> length Vs" "unat n \<le> length Ds"
    by simp_all
  from AllocateDeduplicated_length [OF first] w0 have w1: "unat w < length (WorkerData C1)" by simp
  from RunCalls_length [OF between] w1 have w2: "unat w < length (WorkerData C2)" by simp
  have stored: "MapOf T (WorkerData C2 ! unat w) (Fingerprint E Vs Ds n) = Some r"
  proof (cases "EXPLICIT_DESCRIPTOR_CACHE_FULL_COMPARE B")
    case True
    with validated show ?thesis by simp
  next
    case False
    from False first have "MapOf T (WorkerData C1 ! unat w) (Fingerprint E Vs Ds n) = Some r"
      by (cases rule: AllocateDeduplicated_cases) simp_all
    with RunCalls_keeps_entry [OF False offset w1 _ between] show ?thesis by simp
  qed
  from validated have "EXPLICIT_DESCRIPTOR_CACHE_FULL_COMPARE B \<longrightarrow>
      CompareDescriptors (HeapOf T C2) r Ds n = Inr True" by simp
  with w2 buffers stored offset
  have "AllocateDeduplicated B E C2 G2 Vs Ds n T w = Inr (C2, G2, r)"
    by (rule AllocateDeduplicated_hit)
  with stored show ?thesis by simp
qed

text \<open>
  Worker 0 requests a view table and gets offset 0; after another view table (offset 2)
  and a sampler table of worker 1 (offset 0 of the sampler heap), the first request
  repeated returns 0 again and the three copies made so far stay the only ones.
\<close>

theorem AllocateDeduplicated_repeat_witness:
  "\<exists>C1 G1 C2 G2.
      AllocateDeduplicated SampleBuild SampleEngine ReadyCache InitialGlobals [1, 2] [16, 32] 2
        D3D12_DESCRIPTOR_HEAP_TYPE_CBV_SRV_UAV 0 = Inr (C1, G1, 0)
    \<and> (0 :: int32) \<noteq> INDEX_NONE
    \<and> RunCalls SampleBuild SampleEngine C1 G1
          [CallAllocateDeduplicated [7] [64] 1 D3D12_DESCRIPTOR_HEAP_TYPE_CBV_SRV_UAV 0,
           CallAllocate [80, 96] 2 D3D12_DESCRIPTOR_HEAP_TYPE_SAMPLER 1] = ([2, 0], Inr (C2, G2))
    \<and> \<not> EXPLICIT_DESCRIPTOR_CACHE_FULL_COMPARE SampleBuild
    \<and> AllocateDeduplicated SampleBuild SampleEngine C2 G2 [1, 2] [16, 32] 2
        D3D12_DESCRIPTOR_HEAP_TYPE_CBV_SRV_UAV 0 = Inr (C2, G2, 0)
    \<and> map fst (DeviceCopies G2) = [4096, 4160, 4096]"
proof -
  let ?calls = "[CallAllocateDeduplicated [7] [64] 1 D3D12_DESCRIPTOR_HEAP_TYPE_CBV_SRV_UAV 0,
                 CallAllocate [80, 96] 2 D3D12_DESCRIPTOR_HEAP_TYPE_SAMPLER 1]"
  have "\<exists>C1 G1. AllocateDeduplicated SampleBuild SampleEngine ReadyCache InitialGlobals [1, 2] [16, 32] 2
        D3D12_DESCRIPTOR_HEAP_TYPE_CBV_SRV_UAV 0 = Inr (C1, G1, 0)
      \<and> (\<exists>C2 G2. RunCalls SampleBuild SampleEngine C1 G1 ?calls = ([2, 0], Inr (C2, G2))
             \<and> map fst (DeviceCopies G2) = [4096, 4160, 4096])"
    by (simp add: AllocateDeduplicated_def Cache_Allocate_def Fingerprint_def SampleEngine_def
        ReadyCache_def SampleCache_def SampleWorker_def SampleHeap_def SampleBuild_def
        InitialGlobals_def HeapOf_def SetHeapOf_def MapOf_def SetMapOf_def SetTableBaseIndex_def
        SearchLoop.simps CompareDescriptors_def CompareLoop.simps CopyDescriptors_def
        MirrorLoop.simps GetDescriptorCPU_def Allocate_def INDEX_NONE_def Let_def)
  then obtain C1 G1 C2 G2 where
    first: "AllocateDeduplicated SampleBuild SampleEngine ReadyCache InitialGlobals [1, 2] [16, 32] 2
        D3D12_DESCRIPTOR_HEAP_TYPE_CBV_SRV_UAV 0 = Inr (C1, G1, 0)"
    and between: "RunCalls SampleBuild SampleEngine C1 G1 ?calls = ([2, 0], Inr (C2, G2))"
    and copies: "map fst (DeviceCopies G2) = [4096, 4160, 4096]"
    by auto
  have offset: "(0 :: int32) \<noteq> INDEX_NONE" by (simp add: INDEX_NONE_def)
  have off: "\<not> EXPLICIT_DESCRIPTOR_CACHE_FULL_COMPARE SampleBuild" by (simp add: SampleBuild_def)
  from between have final: "snd (RunCalls SampleBuild SampleEngine C1 G1 ?calls) = Inr (C2, G2)"
    by simp
  from AllocateDeduplicated_repeat [OF first offset final] off
  have "AllocateDeduplicated SampleBuild SampleEngine C2 G2 [1, 2] [16, 32] 2
        D3D12_DESCRIPTOR_HEAP_TYPE_CBV_SRV_UAV 0 = Inr (C2, G2, 0)"
    by simp
  with first offset between off copies show ?thesis
    by (intro exI [of _ C1] exI [of _ G1] exI [of _ C2] exI [of _ G2]) (simp only: simp_thms)
qed

subsection \<open>The exhaustive sampler search\<close>

text \<open>
  Claim C4 does not hold of the code. With exhaustive sampler deduplication on and two
  workers, worker 0 writes a sampler table at offset 0 and worker 1 then requests the
  identical table: the search finds nothing, worker 1 gets offset 2 and the table is
  copied a second time. In the default build the shadow array that the search reads is
  never written, so a table is not found wherever it lies (third line: offsets 0, 2, 4).
  With the full compare compiled in the shadow array is written, and a table is found
  (last line: offsets 0, 2, 0) unless it is the last one written, because the loop of
  line 377 stops before the run that ends at the written count (offsets 0, 2).
\<close>

theorem AllocateDeduplicated_sampler_search_misses:
  "RunCalls SampleBuild SampleEngine ReadyCache InitialGlobals
     [CallAllocateDeduplicated [1, 2] [16, 32] 2 D3D12_DESCRIPTOR_HEAP_TYPE_SAMPLER 0,
      CallAllocateDeduplicated [1, 2] [16, 32] 2 D3D12_DESCRIPTOR_HEAP_TYPE_SAMPLER 1]
     = ([0, 2], Inr (ReadyCache
          \<lparr>SamplerHeap := (SampleHeap D3D12_DESCRIPTOR_HEAP_TYPE_SAMPLER 8)
             \<lparr>NumAllocatedDescriptors := 4, NumWrittenSamplerDescriptors := 4\<rparr>,
           WorkerData := [SampleWorker\<lparr>SamplerDescriptorTableCache := [51 \<mapsto> 0]\<rparr>,
                          SampleWorker\<lparr>SamplerDescriptorTableCache := [51 \<mapsto> 2]\<rparr>]\<rparr>,
        InitialGlobals\<lparr>DeviceCopies := [(4096, [16, 32]), (4160, [16, 32])]\<rparr>))
   \<and> fst (RunCalls SampleBuild SampleEngine ReadyCache InitialGlobals
        [CallAllocateDeduplicated [1, 2] [16, 32] 2 D3D12_DESCRIPTOR_HEAP_TYPE_SAMPLER 0,
         CallAllocateDeduplicated [3, 4] [48, 64] 2 D3D12_DESCRIPTOR_HEAP_TYPE_SAMPLER 0,
         CallAllocateDeduplicated [1, 2] [16, 32] 2 D3D12_DESCRIPTOR_HEAP_TYPE_SAMPLER 1])
     = [0, 2, 4]
   \<and> fst (RunCalls (SampleBuild\<lparr>EXPLICIT_DESCRIPTOR_CACHE_FULL_COMPARE := True\<rparr>) SampleEngine
          ReadyCache InitialGlobals
        [CallAllocateDeduplicated [1, 2] [16, 32] 2 D3D12_DESCRIPTOR_HEAP_TYPE_SAMPLER 0,
         CallAllocateDeduplicated [1, 2] [16, 32] 2 D3D12_DESCRIPTOR_HEAP_TYPE_SAMPLER 1])
     = [0, 2]
   \<and> fst (RunCalls (SampleBuild\<lparr>EXPLICIT_DESCRIPTOR_CACHE_FULL_COMPARE := True\<rparr>) SampleEngine
          ReadyCache InitialGlobals
        [CallAllocateDeduplicated [1, 2] [16, 32] 2 D3D12_DESCRIPTOR_HEAP_TYPE_SAMPLER 0,
         CallAllocateDeduplicated [3, 4] [48, 64] 2 D3D12_DESCRIPTOR_HEAP_TYPE_SAMPLER 0,
         CallAllocateDeduplicated [1, 2] [16, 32] 2 D3D12_DESCRIPTOR_HEAP_TYPE_SAMPLER 1])
     = [0, 2, 0]"
  by (simp add: AllocateDeduplicated_def Cache_Allocate_def Fingerprint_def SampleEngine_def
        ReadyCache_def SampleCache_def SampleWorker_def SampleHeap_def SampleBuild_def
        InitialGlobals_def HeapOf_def SetHeapOf_def MapOf_def SetMapOf_def SetTableBaseIndex_def
        SearchLoop.simps CompareDescriptors_def CompareLoop.simps CopyDescriptors_def
        MirrorLoop.simps GetDescriptorCPU_def Allocate_def INDEX_NONE_def Let_def)

end
